theory Spec2Isabelle
  imports Complex_Main "HOL-Library.AList"
begin

section \<open>Objects and the store\<close>

text \<open>
  The transforms of \<^verbatim>\<open>ppsci/data/process/transform/preprocess.py\<close> receive Python
  dictionaries from variable names to \<^verbatim>\<open>numpy.ndarray\<close> objects. Both kinds of object
  are mutable and are passed by reference, so the embedding keeps them in a store: a
  dictionary is an insertion-ordered association list from keys to addresses of arrays,
  an array is a shape with its elements in row-major order, and an address is the
  position of the object in the store. Objects are never freed; allocation appends.

  Arrays are those of dtype float64, and their elements are idealised as real numbers:
  rounding, infinities and NaN are outside the model, and so are arrays of integers (on
  which numpy refuses an in-place operation with a float operand). The statements below
  are about which objects are read, written and created, and about shapes and positions.

  A function that can raise returns a value of \<open>error + _\<close>, with \<open>Inl\<close> for the
  exception. The store after an exception is not returned: the transforms that raise
  have, before they raise, allocated objects of their own and changed no other.
\<close>

type_synonym addr = nat

datatype ndarray = NdArray (shape: "nat list") (elems: "real list")

definition ndim :: "ndarray \<Rightarrow> nat" where
  "ndim a = length (shape a)"

definition wf_array :: "ndarray \<Rightarrow> bool" where
  "wf_array a \<longleftrightarrow> length (elems a) = prod_list (shape a)"

type_synonym dict = "(string \<times> addr) list"

record heap =
  dicts :: "dict list"
  arrays :: "ndarray list"

text \<open>
  Every reference held by a Python object denotes a live object, and a dictionary has
  each key once. \<open>wf_heap\<close> states this of a store.
\<close>

definition wf_heap :: "heap \<Rightarrow> bool" where
  "wf_heap h \<longleftrightarrow>
     (\<forall>d \<in> set (dicts h). distinct (map fst d) \<and> (\<forall>v \<in> snd ` set d. v < length (arrays h)))"

datatype error =
    ValueError_apply_keys "string list"
  | ValueError_ndim nat
  | ValueError_broadcast
  | IndexError
  | KeyError string

text \<open>\<^verbatim>\<open>{**d}\<close>: a new dictionary object with the items of \<open>d\<close>, in the same order.\<close>

definition dict_copy :: "heap \<Rightarrow> addr \<Rightarrow> addr \<times> heap" where
  "dict_copy h d = (length (dicts h), h\<lparr>dicts := dicts h @ [dicts h ! d]\<rparr>)"

text \<open>\<^verbatim>\<open>{}\<close>: a new, empty dictionary object.\<close>

definition dict_new :: "heap \<Rightarrow> addr \<times> heap" where
  "dict_new h = (length (dicts h), h\<lparr>dicts := dicts h @ [[]]\<rparr>)"

text \<open>\<^verbatim>\<open>d[key] = v\<close>: an existing key keeps its position, a new key is appended.\<close>

definition dict_setitem :: "heap \<Rightarrow> addr \<Rightarrow> string \<Rightarrow> addr \<Rightarrow> heap" where
  "dict_setitem h d key v = h\<lparr>dicts := (dicts h)[d := AList.update key v (dicts h ! d)]\<rparr>"

text \<open>A new array object, as every numpy expression other than an in-place one returns.\<close>

definition new_array :: "heap \<Rightarrow> ndarray \<Rightarrow> addr \<times> heap" where
  "new_array h a = (length (arrays h), h\<lparr>arrays := arrays h @ [a]\<rparr>)"

text \<open>
  \<^verbatim>\<open>ndarray.__iadd__\<close> and \<^verbatim>\<open>ndarray.__imul__\<close> with a Python float: the elements of
  the array object itself are overwritten, and the same object is the result.
\<close>

definition nd_inplace :: "(real \<Rightarrow> real) \<Rightarrow> heap \<Rightarrow> addr \<Rightarrow> heap" where
  "nd_inplace f h v =
     h\<lparr>arrays := (arrays h)[v := NdArray (shape (arrays h ! v)) (map f (elems (arrays h ! v)))]\<rparr>"

section \<open>Array arithmetic\<close>

text \<open>
  numpy's broadcasting: shapes are aligned at their last axis; two extents are
  compatible when they are equal or one of them is 1, and an operand is read at
  position 0 along an axis on which its extent is 1. \<open>unravel\<close> gives the position
  along each axis of the \<open>k\<close>-th element in row-major order, \<open>ravel\<close> is its inverse,
  and \<open>bc_index\<close> is the position an operand is read at. A tuple of floats enters the
  arithmetic as the array of one axis with its components, a Python float as the array
  without axes; a result without axes, which numpy returns as a scalar, stays an array
  without axes here.
\<close>

fun broadcast_rev :: "nat list \<Rightarrow> nat list \<Rightarrow> nat list option" where
  "broadcast_rev [] ys = Some ys"
| "broadcast_rev (x # xs) [] = Some (x # xs)"
| "broadcast_rev (x # xs) (y # ys) =
     (if x = y \<or> y = 1 then map_option ((#) x) (broadcast_rev xs ys)
      else if x = 1 then map_option ((#) y) (broadcast_rev xs ys)
      else None)"

definition broadcast_shapes :: "nat list \<Rightarrow> nat list \<Rightarrow> nat list option" where
  "broadcast_shapes s t = map_option rev (broadcast_rev (rev s) (rev t))"

fun unravel :: "nat list \<Rightarrow> nat \<Rightarrow> nat list" where
  "unravel [] k = []"
| "unravel (d # ds) k = (k div prod_list ds) # unravel ds (k mod prod_list ds)"

fun ravel :: "nat list \<Rightarrow> nat list \<Rightarrow> nat" where
  "ravel (d # ds) (i # js) = i * prod_list ds + ravel ds js"
| "ravel _ _ = 0"

definition bc_index :: "nat list \<Rightarrow> nat list \<Rightarrow> nat list" where
  "bc_index s idx = map2 (\<lambda>d i. if d = 1 then 0 else i) s (drop (length idx - length s) idx)"

definition nd_binop :: "(real \<Rightarrow> real \<Rightarrow> real) \<Rightarrow> ndarray \<Rightarrow> ndarray \<Rightarrow> error + ndarray" where
  "nd_binop f a b =
     (case broadcast_shapes (shape a) (shape b) of
        None \<Rightarrow> Inl ValueError_broadcast
      | Some s \<Rightarrow>
          Inr (NdArray s
            (map (\<lambda>k. f (elems a ! ravel (shape a) (bc_index (shape a) (unravel s k)))
                        (elems b ! ravel (shape b) (bc_index (shape b) (unravel s k))))
               [0..<prod_list s])))"

text \<open>
  Python's \<^verbatim>\<open>slice(a, b).indices(n)\<close> for step 1: a negative bound counts from the
  end, and both bounds are clamped to \<open>0..n\<close>.
\<close>

definition slice_bound :: "int \<Rightarrow> nat \<Rightarrow> nat" where
  "slice_bound i n = nat (if i < 0 then max (i + int n) 0 else min i (int n))"

section \<open>Translate and Scale\<close>

record Translate =
  offset :: "(string \<times> real) list"

definition Translate_init :: "(string \<times> real) list \<Rightarrow> Translate" where
  "Translate_init offset' = \<lparr>offset = offset'\<rparr>"

text \<open>
  \<^verbatim>\<open>for key in self.offset: if key in input_dict: input_dict_copy[key] += self.offset[key]\<close>.
  The augmented assignment reads \<^verbatim>\<open>input_dict_copy[key]\<close>, calls \<^verbatim>\<open>__iadd__\<close> on the
  array it finds there, and stores the result under the key again.
\<close>

fun Translate_loop :: "(string \<times> real) list \<Rightarrow> addr \<Rightarrow> addr \<Rightarrow> heap \<Rightarrow> error + heap" where
  "Translate_loop [] input_dict input_dict_copy h = Inr h"
| "Translate_loop ((key, c) # rest) input_dict input_dict_copy h =
     (if key \<in> fst ` set (dicts h ! input_dict)
      then (case map_of (dicts h ! input_dict_copy) key of
              None \<Rightarrow> Inl (KeyError key)
            | Some v \<Rightarrow>
                Translate_loop rest input_dict input_dict_copy
                  (dict_setitem (nd_inplace (\<lambda>x. x + c) h v) input_dict_copy key v))
      else Translate_loop rest input_dict input_dict_copy h)"

definition Translate_call ::
  "Translate \<Rightarrow> heap \<Rightarrow> addr \<Rightarrow> addr \<Rightarrow> addr option
     \<Rightarrow> error + ((addr \<times> addr \<times> addr option) \<times> heap)" where
  "Translate_call self h input_dict label_dict weight_dict =
     (let (input_dict_copy, h1) = dict_copy h input_dict in
      case Translate_loop (offset self) input_dict input_dict_copy h1 of
        Inl e \<Rightarrow> Inl e
      | Inr h2 \<Rightarrow> Inr ((input_dict_copy, label_dict, weight_dict), h2))"

record Scale =
  scale :: "(string \<times> real) list"

definition Scale_init :: "(string \<times> real) list \<Rightarrow> Scale" where
  "Scale_init scale' = \<lparr>scale = scale'\<rparr>"

fun Scale_loop :: "(string \<times> real) list \<Rightarrow> addr \<Rightarrow> addr \<Rightarrow> heap \<Rightarrow> error + heap" where
  "Scale_loop [] input_dict input_dict_copy h = Inr h"
| "Scale_loop ((key, c) # rest) input_dict input_dict_copy h =
     (if key \<in> fst ` set (dicts h ! input_dict)
      then (case map_of (dicts h ! input_dict_copy) key of
              None \<Rightarrow> Inl (KeyError key)
            | Some v \<Rightarrow>
                Scale_loop rest input_dict input_dict_copy
                  (dict_setitem (nd_inplace (\<lambda>x. x * c) h v) input_dict_copy key v))
      else Scale_loop rest input_dict input_dict_copy h)"

definition Scale_call ::
  "Scale \<Rightarrow> heap \<Rightarrow> addr \<Rightarrow> addr \<Rightarrow> addr option
     \<Rightarrow> error + ((addr \<times> addr \<times> addr option) \<times> heap)" where
  "Scale_call self h input_dict label_dict weight_dict =
     (let (input_dict_copy, h1) = dict_copy h input_dict in
      case Scale_loop (Scale.scale self) input_dict input_dict_copy h1 of
        Inl e \<Rightarrow> Inl e
      | Inr h2 \<Rightarrow> Inr ((input_dict_copy, label_dict, weight_dict), h2))"

section \<open>Normalize, Log1p and CropData\<close>

text \<open>
  The three \<^verbatim>\<open>__call__\<close> methods have the same body but for the expression they assign:
  \<^verbatim>\<open>for key, value in item_copy.items(): item_copy[key] = g(value)\<close>,
  run on the copy of the inputs when \<^verbatim>\<open>"input" in self.apply_keys\<close> and then on the
  copy of the labels when \<^verbatim>\<open>"label" in self.apply_keys\<close>. The expression \<open>g\<close> reads the
  array and returns a new array object, or raises. \<open>items_loop\<close> is the loop: it runs
  over the items the dictionary has when the loop starts (an assignment to a key that is
  present changes neither the keys nor their order, so the view Python iterates yields
  the same items), and \<open>on_apply_keys\<close> is the body around it, which SqueezeData shares
  with a loop of its own.
\<close>

fun items_loop :: "(ndarray \<Rightarrow> error + ndarray) \<Rightarrow> dict \<Rightarrow> addr \<Rightarrow> heap \<Rightarrow> error + heap" where
  "items_loop g [] item_copy h = Inr h"
| "items_loop g ((key, val) # rest) item_copy h =
     (case g (arrays h ! val) of
        Inl e \<Rightarrow> Inl e
      | Inr r \<Rightarrow>
          (let (v, h1) = new_array h r
           in items_loop g rest item_copy (dict_setitem h1 item_copy key v)))"

definition on_apply_keys ::
  "(dict \<Rightarrow> addr \<Rightarrow> heap \<Rightarrow> error + heap) \<Rightarrow> string list \<Rightarrow> heap \<Rightarrow> addr \<Rightarrow> addr \<Rightarrow> addr option
     \<Rightarrow> error + ((addr \<times> addr \<times> addr option) \<times> heap)" where
  "on_apply_keys loop apply_keys' h input_item label_item weight_item =
     (let (input_item_copy, h1) = dict_copy h input_item;
          (label_item_copy, h2) = dict_copy h1 label_item
      in case (if ''input'' \<in> set apply_keys'
               then loop (dicts h2 ! input_item_copy) input_item_copy h2 else Inr h2) of
           Inl e \<Rightarrow> Inl e
         | Inr h3 \<Rightarrow>
             (case (if ''label'' \<in> set apply_keys'
                    then loop (dicts h3 ! label_item_copy) label_item_copy h3 else Inr h3) of
                Inl e \<Rightarrow> Inl e
              | Inr h4 \<Rightarrow> Inr ((input_item_copy, label_item_copy, weight_item), h4)))"

record Normalize =
  mean :: ndarray
  std :: ndarray
  apply_keys :: "string list"

definition Normalize_init :: "ndarray \<Rightarrow> ndarray \<Rightarrow> string list \<Rightarrow> error + Normalize" where
  "Normalize_init mean' std' apply_keys' =
     (if length apply_keys' = 0 \<or> card (set apply_keys' \<union> {''input'', ''label''}) > 2
      then Inl (ValueError_apply_keys apply_keys')
      else Inr \<lparr>mean = mean', std = std', apply_keys = apply_keys'\<rparr>)"

text \<open>\<^verbatim>\<open>(value - self.mean) / self.std\<close>\<close>

definition normalize_value :: "Normalize \<Rightarrow> ndarray \<Rightarrow> error + ndarray" where
  "normalize_value self val =
     (case nd_binop (-) val (mean self) of
        Inl e \<Rightarrow> Inl e
      | Inr d \<Rightarrow> nd_binop (/) d (std self))"

definition Normalize_call ::
  "Normalize \<Rightarrow> heap \<Rightarrow> addr \<Rightarrow> addr \<Rightarrow> addr option
     \<Rightarrow> error + ((addr \<times> addr \<times> addr option) \<times> heap)" where
  "Normalize_call self h input_item label_item weight_item =
     on_apply_keys (items_loop (normalize_value self)) (Normalize.apply_keys self)
       h input_item label_item weight_item"

record Log1p =
  scale :: real
  apply_keys :: "string list"

definition Log1p_init :: "real \<Rightarrow> string list \<Rightarrow> error + Log1p" where
  "Log1p_init scale' apply_keys' =
     (if length apply_keys' = 0 \<or> card (set apply_keys' \<union> {''input'', ''label''}) > 2
      then Inl (ValueError_apply_keys apply_keys')
      else Inr \<lparr>scale = scale', apply_keys = apply_keys'\<rparr>)"

text \<open>\<^verbatim>\<open>np.log1p(value / self.scale)\<close>\<close>

definition log1p_value :: "Log1p \<Rightarrow> ndarray \<Rightarrow> error + ndarray" where
  "log1p_value self val =
     Inr (NdArray (shape val) (map (\<lambda>x. ln (1 + x / Log1p.scale self)) (elems val)))"

definition Log1p_call ::
  "Log1p \<Rightarrow> heap \<Rightarrow> addr \<Rightarrow> addr \<Rightarrow> addr option
     \<Rightarrow> error + ((addr \<times> addr \<times> addr option) \<times> heap)" where
  "Log1p_call self h input_item label_item weight_item =
     on_apply_keys (items_loop (log1p_value self)) (Log1p.apply_keys self)
       h input_item label_item weight_item"

record CropData =
  xmin :: "int list"
  xmax :: "int list"
  apply_keys :: "string list"

definition CropData_init :: "int list \<Rightarrow> int list \<Rightarrow> string list \<Rightarrow> error + CropData" where
  "CropData_init xmin' xmax' apply_keys' =
     (if length apply_keys' = 0 \<or> card (set apply_keys' \<union> {''input'', ''label''}) > 2
      then Inl (ValueError_apply_keys apply_keys')
      else Inr \<lparr>xmin = xmin', xmax = xmax', apply_keys = apply_keys'\<rparr>)"

text \<open>
  \<^verbatim>\<open>value[:, self.xmin[0] : self.xmax[0], self.xmin[1] : self.xmax[1]]\<close>: the corners are
  read first (a tuple shorter than two raises), then the array is indexed (fewer than
  three axes raise; axes after the third are kept whole). numpy returns a view of the
  array's buffer; the model gives the new array object its own elements, which differs
  only for a later in-place write.
\<close>

definition crop_value :: "CropData \<Rightarrow> ndarray \<Rightarrow> error + ndarray" where
  "crop_value self val =
     (if length (xmin self) < 2 \<or> length (xmax self) < 2 then Inl IndexError
      else case shape val of
        C # H # W # rest \<Rightarrow>
          (let x0 = slice_bound (xmin self ! 0) H; x1 = slice_bound (xmax self ! 0) H;
               y0 = slice_bound (xmin self ! 1) W; y1 = slice_bound (xmax self ! 1) W;
               R = prod_list rest
           in Inr (NdArray (C # (x1 - x0) # (y1 - y0) # rest)
                (concat (map (\<lambda>c.
                   concat (map (\<lambda>i.
                     concat (map (\<lambda>j. take R (drop (((c * H + i) * W + j) * R) (elems val)))
                       [y0..<y1]))
                     [x0..<x1]))
                   [0..<C]))))
      | _ \<Rightarrow> Inl IndexError)"

definition CropData_call ::
  "CropData \<Rightarrow> heap \<Rightarrow> addr \<Rightarrow> addr \<Rightarrow> addr option
     \<Rightarrow> error + ((addr \<times> addr \<times> addr option) \<times> heap)" where
  "CropData_call self h input_item label_item weight_item =
     on_apply_keys (items_loop (crop_value self)) (CropData.apply_keys self)
       h input_item label_item weight_item"

section \<open>SqueezeData\<close>

record SqueezeData =
  apply_keys :: "string list"

definition SqueezeData_init :: "string list \<Rightarrow> error + SqueezeData" where
  "SqueezeData_init apply_keys' =
     (if length apply_keys' = 0 \<or> card (set apply_keys' \<union> {''input'', ''label''}) > 2
      then Inl (ValueError_apply_keys apply_keys')
      else Inr \<lparr>apply_keys = apply_keys'\<rparr>)"

text \<open>
  The loop variable \<^verbatim>\<open>value\<close> stays bound to the array taken from the dictionary when
  the iteration began: the assignment \<^verbatim>\<open>item_copy[key] = value.reshape(...)\<close> stores a
  new object under the key and leaves \<^verbatim>\<open>value\<close> as it was, and the test
  \<^verbatim>\<open>value.ndim != 3\<close> that follows reads \<^verbatim>\<open>value\<close>. The reshaped array has
  the elements of the old one in the same order (numpy returns a view; as for the crop,
  the model gives the new object its own elements).
\<close>

fun squeeze_loop :: "dict \<Rightarrow> addr \<Rightarrow> heap \<Rightarrow> error + heap" where
  "squeeze_loop [] item_copy h = Inr h"
| "squeeze_loop ((key, val) # rest) item_copy h =
     (let h1 = (if ndim (arrays h ! val) = 4
                then (let B = shape (arrays h ! val) ! 0; C = shape (arrays h ! val) ! 1;
                          H = shape (arrays h ! val) ! 2; W = shape (arrays h ! val) ! 3;
                          (v, h') = new_array h (NdArray [B * C, H, W] (elems (arrays h ! val)))
                      in dict_setitem h' item_copy key v)
                else h)
      in if ndim (arrays h1 ! val) \<noteq> 3
         then Inl (ValueError_ndim (ndim (arrays h1 ! val)))
         else squeeze_loop rest item_copy h1)"

definition SqueezeData_call ::
  "SqueezeData \<Rightarrow> heap \<Rightarrow> addr \<Rightarrow> addr \<Rightarrow> addr option
     \<Rightarrow> error + ((addr \<times> addr \<times> addr option) \<times> heap)" where
  "SqueezeData_call self h input_item label_item weight_item =
     on_apply_keys squeeze_loop (SqueezeData.apply_keys self)
       h input_item label_item weight_item"

section \<open>FunctionalTransform\<close>

text \<open>
  The user's function works on the store and returns whatever it returns: its result
  type \<open>'r\<close> is arbitrary and holds the store it leaves and what it raised, if anything.
\<close>

record 'r FunctionalTransform =
  transform_func :: "addr \<Rightarrow> addr \<Rightarrow> addr \<Rightarrow> heap \<Rightarrow> 'r"

definition FunctionalTransform_init ::
  "(addr \<Rightarrow> addr \<Rightarrow> addr \<Rightarrow> heap \<Rightarrow> 'r) \<Rightarrow> 'r FunctionalTransform" where
  "FunctionalTransform_init transform_func' = \<lparr>transform_func = transform_func'\<rparr>"

definition FunctionalTransform_call ::
  "'r FunctionalTransform \<Rightarrow> heap \<Rightarrow> addr \<Rightarrow> addr \<Rightarrow> addr option \<Rightarrow> 'r" where
  "FunctionalTransform_call self h data_dict label_dict weight_dict =
     (let (data_dict_copy, h1) = dict_copy h data_dict;
          (label_dict_copy, h2) = dict_copy h1 label_dict;
          (weight_dict_copy, h3) =
             (case weight_dict of Some w \<Rightarrow> dict_copy h2 w | None \<Rightarrow> dict_new h2)
      in transform_func self data_dict_copy label_dict_copy weight_dict_copy h3)"

section \<open>Notions used in the statements\<close>

text \<open>
  The definitions of this section are not part of the program; the lemmas and theorems
  below describe the program with them.

  \<open>map_result g xs\<close> applies \<open>g\<close> from left to right and stops at the first exception.
\<close>

fun map_result :: "('a \<Rightarrow> error + 'b) \<Rightarrow> 'a list \<Rightarrow> error + 'b list" where
  "map_result g [] = Inr []"
| "map_result g (x # xs) =
     (case g x of
        Inl e \<Rightarrow> Inl e
      | Inr y \<Rightarrow> (case map_result g xs of Inl e \<Rightarrow> Inl e | Inr ys \<Rightarrow> Inr (y # ys)))"

text \<open>
  The items of a dictionary whose values have all been replaced by objects allocated one
  after the other from address \<open>na\<close> on.
\<close>

definition fresh_items :: "dict \<Rightarrow> nat \<Rightarrow> dict" where
  "fresh_items its na = zip (map fst its) [na..<na + length its]"

text \<open>
  The items a call with \<open>apply_keys = ks\<close> visits, in the order it visits them: those of
  the inputs when "input" is in \<open>ks\<close>, then those of the labels when "label" is.
\<close>

definition selected_items :: "string list \<Rightarrow> heap \<Rightarrow> addr \<Rightarrow> addr \<Rightarrow> dict" where
  "selected_items ks h i l =
     (if ''input'' \<in> set ks then dicts h ! i else []) @
     (if ''label'' \<in> set ks then dicts h ! l else [])"

text \<open>
  The arrays of the store after Translate (\<open>f = (+)\<close>) or Scale (\<open>f = (*)\<close>) has gone
  through its configuration: for each configured key that the inputs hold, the array
  under that key is overwritten.
\<close>

fun inplace_all ::
  "(real \<Rightarrow> real \<Rightarrow> real) \<Rightarrow> dict \<Rightarrow> (string \<times> real) list \<Rightarrow> ndarray list \<Rightarrow> ndarray list" where
  "inplace_all f its [] arrs = arrs"
| "inplace_all f its ((key, c) # rest) arrs =
     (case map_of its key of
        None \<Rightarrow> inplace_all f its rest arrs
      | Some v \<Rightarrow>
          inplace_all f its rest
            (arrs[v := NdArray (shape (arrs ! v)) (map (\<lambda>x. f x c) (elems (arrs ! v)))]))"

text \<open>
  The specification's slice \<open>[:, x0:x1, y0:y1]\<close> of a tensor of shape \<open>[C, H, W]\<close>,
  stated position by position: with the bounds clamped as Python clamps them, the new
  tensor has shape \<open>[C, b1 - a1, b2 - a2]\<close> and its element at \<open>(c, i, j)\<close> is the old
  tensor's element at \<open>(c, a1 + i, a2 + j)\<close>.
\<close>

definition sliced_3d :: "int \<Rightarrow> int \<Rightarrow> int \<Rightarrow> int \<Rightarrow> ndarray \<Rightarrow> ndarray \<Rightarrow> bool" where
  "sliced_3d x0 x1 y0 y1 old new \<longleftrightarrow>
     (case shape old of
        [C, H, W] \<Rightarrow>
          (let a1 = slice_bound x0 H; b1 = slice_bound x1 H;
               a2 = slice_bound y0 W; b2 = slice_bound y1 W
           in shape new = [C, b1 - a1, b2 - a2] \<and>
              length (elems new) = C * (b1 - a1) * (b2 - a2) \<and>
              list_all (\<lambda>c. list_all (\<lambda>i. list_all (\<lambda>j.
                  elems new ! ((c * (b1 - a1) + i) * (b2 - a2) + j) =
                  elems old ! ((c * H + (a1 + i)) * W + (a2 + j)))
                [0..<b2 - a2]) [0..<b1 - a1]) [0..<C])
      | _ \<Rightarrow> False)"

text \<open>
  \<open>replaced_by g h h' old_items new_items\<close>: the new items have the keys of the old ones,
  in the same order, and under each key an array object allocated since \<open>h\<close> whose
  content in \<open>h'\<close> is the value of \<open>g\<close> at the array the key held in \<open>h\<close>.
\<close>

definition replaced_by ::
  "(ndarray \<Rightarrow> error + ndarray) \<Rightarrow> heap \<Rightarrow> heap \<Rightarrow> dict \<Rightarrow> dict \<Rightarrow> bool" where
  "replaced_by g h h' old_items new_items \<longleftrightarrow>
     list_all2 (\<lambda>kv kv'. fst kv' = fst kv \<and> length (arrays h) \<le> snd kv' \<and>
                  snd kv' < length (arrays h') \<and> g (arrays h ! snd kv) = Inr (arrays h' ! snd kv'))
       old_items new_items"

text \<open>Every object of \<open>h\<close> is in \<open>h'\<close> at its address, with the content it had.\<close>

definition old_objects_kept :: "heap \<Rightarrow> heap \<Rightarrow> bool" where
  "old_objects_kept h h' \<longleftrightarrow>
     take (length (dicts h)) (dicts h') = dicts h \<and> take (length (arrays h)) (arrays h') = arrays h"

text \<open>
  The three mappings returned (\<open>res\<close>, read in \<open>h'\<close>) have the keys, in their order,
  of the three mappings given (\<open>args\<close>, read in \<open>h\<close>); absent weights stay absent.
\<close>

definition same_keys ::
  "heap \<Rightarrow> addr \<times> addr \<times> addr option \<Rightarrow> heap \<Rightarrow> addr \<times> addr \<times> addr option \<Rightarrow> bool" where
  "same_keys h args h' res \<longleftrightarrow>
     (case args of (i, l, w) \<Rightarrow> case res of (i', l', w') \<Rightarrow>
        map fst (dicts h' ! i') = map fst (dicts h ! i) \<and>
        map fst (dicts h' ! l') = map fst (dicts h ! l) \<and>
        (case w of
           None \<Rightarrow> w' = None
         | Some a \<Rightarrow> (case w' of None \<Rightarrow> False
                      | Some a' \<Rightarrow> map fst (dicts h' ! a') = map fst (dicts h ! a))))"

section \<open>Validation of apply_keys\<close>

lemma card_with_input_label:
  "2 < card (set ks \<union> {''input'', ''label''}) \<longleftrightarrow> \<not> set ks \<subseteq> {''input'', ''label''}"
proof
  assume big: "2 < card (set ks \<union> {''input'', ''label''})"
  show "\<not> set ks \<subseteq> {''input'', ''label''}"
  proof
    assume "set ks \<subseteq> {''input'', ''label''}"
    then have "set ks \<union> {''input'', ''label''} = {''input'', ''label''}" by blast
    with big show False by simp
  qed
next
  assume "\<not> set ks \<subseteq> {''input'', ''label''}"
  then obtain k where k: "k \<in> set ks" "k \<noteq> ''input''" "k \<noteq> ''label''" by blast
  have "card {k, ''input'', ''label''} = 3" using k by simp
  moreover have "{k, ''input'', ''label''} \<subseteq> set ks \<union> {''input'', ''label''}" using k by blast
  then have "card {k, ''input'', ''label''} \<le> card (set ks \<union> {''input'', ''label''})"
    by (intro card_mono) simp_all
  ultimately show "2 < card (set ks \<union> {''input'', ''label''})" by simp
qed

text \<open>
  C3: constructing Normalize, Log1p, CropData or SqueezeData with the empty tuple, or with
  a tuple holding an element other than "input" and "label", raises the ValueError that
  carries the tuple it was given; with a non-empty tuple of elements among "input" and
  "label" the constructor returns the object, its fields set from the arguments.
\<close>

theorem apply_keys_validation:
  "(apply_keys' = [] \<or> \<not> set apply_keys' \<subseteq> {''input'', ''label''} \<longrightarrow>
      Normalize_init mean' std' apply_keys' = Inl (ValueError_apply_keys apply_keys') \<and>
      Log1p_init scale' apply_keys' = Inl (ValueError_apply_keys apply_keys') \<and>
      CropData_init xmin' xmax' apply_keys' = Inl (ValueError_apply_keys apply_keys') \<and>
      SqueezeData_init apply_keys' = Inl (ValueError_apply_keys apply_keys')) \<and>
   (apply_keys' \<noteq> [] \<and> set apply_keys' \<subseteq> {''input'', ''label''} \<longrightarrow>
      Normalize_init mean' std' apply_keys' =
        Inr \<lparr>mean = mean', std = std', apply_keys = apply_keys'\<rparr> \<and>
      Log1p_init scale' apply_keys' = Inr \<lparr>scale = scale', apply_keys = apply_keys'\<rparr> \<and>
      CropData_init xmin' xmax' apply_keys' =
        Inr \<lparr>xmin = xmin', xmax = xmax', apply_keys = apply_keys'\<rparr> \<and>
      SqueezeData_init apply_keys' = Inr \<lparr>apply_keys = apply_keys'\<rparr>)"
  unfolding Normalize_init_def Log1p_init_def CropData_init_def SqueezeData_init_def
    card_with_input_label
  by simp

theorem apply_keys_validation_witness:
  "Normalize_init (NdArray [] [0]) (NdArray [] [2]) [] = Inl (ValueError_apply_keys []) \<and>
   Log1p_init 1 [''input'', ''extra''] = Inl (ValueError_apply_keys [''input'', ''extra'']) \<and>
   CropData_init [0, 0] [2, 3] [''extra''] = Inl (ValueError_apply_keys [''extra'']) \<and>
   SqueezeData_init [] = Inl (ValueError_apply_keys []) \<and>
   Normalize_init (NdArray [] [0]) (NdArray [] [2]) [''input''] =
     Inr \<lparr>mean = NdArray [] [0], std = NdArray [] [2], apply_keys = [''input'']\<rparr> \<and>
   Log1p_init 1 [''label''] = Inr \<lparr>scale = 1, apply_keys = [''label'']\<rparr> \<and>
   CropData_init [0, 0] [2, 3] [''input'', ''label''] =
     Inr \<lparr>xmin = [0, 0], xmax = [2, 3], apply_keys = [''input'', ''label'']\<rparr> \<and>
   SqueezeData_init [''label'', ''input''] = Inr \<lparr>apply_keys = [''label'', ''input'']\<rparr>"
  using apply_keys_validation [of "[]" "NdArray [] [0]" "NdArray [] [2]" 1 "[0, 0]" "[2, 3]"]
    apply_keys_validation [of "[''input'', ''extra'']" "NdArray [] [0]" "NdArray [] [2]" 1 "[0, 0]" "[2, 3]"]
    apply_keys_validation [of "[''extra'']" "NdArray [] [0]" "NdArray [] [2]" 1 "[0, 0]" "[2, 3]"]
    apply_keys_validation [of "[''input'']" "NdArray [] [0]" "NdArray [] [2]" 1 "[0, 0]" "[2, 3]"]
    apply_keys_validation [of "[''label'']" "NdArray [] [0]" "NdArray [] [2]" 1 "[0, 0]" "[2, 3]"]
    apply_keys_validation [of "[''input'', ''label'']" "NdArray [] [0]" "NdArray [] [2]" 1 "[0, 0]" "[2, 3]"]
    apply_keys_validation [of "[''label'', ''input'']" "NdArray [] [0]" "NdArray [] [2]" 1 "[0, 0]" "[2, 3]"]
  by simp

section \<open>The loops in closed form\<close>

lemma map_result_cong:
  "(\<And>x. x \<in> set xs \<Longrightarrow> f x = g x) \<Longrightarrow> map_result f xs = map_result g xs"
  by (induction xs) (auto split: sum.splits)

lemma map_result_length: "map_result g xs = Inr ys \<Longrightarrow> length ys = length xs"
  by (induction xs arbitrary: ys) (auto split: sum.splits)

lemma map_result_nth:
  "map_result g xs = Inr ys \<Longrightarrow> j < length xs \<Longrightarrow> g (xs ! j) = Inr (ys ! j)"
proof (induction xs arbitrary: ys j)
  case Nil then show ?case by simp
next
  case (Cons x xs)
  then show ?case by (cases j) (auto split: sum.splits)
qed

lemma map_result_all_Inr:
  "(\<And>x. x \<in> set xs \<Longrightarrow> \<exists>y. g x = Inr y) \<Longrightarrow> \<exists>ys. map_result g xs = Inr ys"
proof (induction xs)
  case Nil then show ?case by simp
next
  case (Cons x xs)
  then obtain y where "g x = Inr y" by auto
  moreover from Cons obtain ys where "map_result g xs = Inr ys" by auto
  ultimately show ?case by simp
qed

lemma update_in_middle:
  "k \<notin> fst ` set pre \<Longrightarrow> AList.update k v (pre @ (k, u) # rest) = pre @ (k, v) # rest"
  by (induction pre) auto

lemma items_loop_eq:
  assumes "dc < length (dicts h)" "dicts h ! dc = pre @ its" "distinct (map fst (pre @ its))"
    "\<forall>v \<in> snd ` set its. v < length (arrays h)"
  shows "items_loop g its dc h =
    (case map_result g (map (\<lambda>kv. arrays h ! snd kv) its) of
       Inl e \<Rightarrow> Inl e
     | Inr rs \<Rightarrow> Inr (h\<lparr>dicts := (dicts h)[dc := pre @ zip (map fst its)
                          [length (arrays h)..<length (arrays h) + length its]],
                       arrays := arrays h @ rs\<rparr>))"
  using assms
proof (induction its arbitrary: h pre)
  case Nil
  then have "(dicts h)[dc := pre] = dicts h" by (metis list_update_id append_Nil2)
  then show ?case by simp
next
  case (Cons kv its)
  obtain k v where kv: "kv = (k, v)" by (cases kv)
  show ?case
  proof (cases "g (arrays h ! v)")
    case (Inl e)
    then show ?thesis by (simp add: kv)
  next
    case (Inr r)
    define h2 where "h2 = dict_setitem (h\<lparr>arrays := arrays h @ [r]\<rparr>) dc k (length (arrays h))"
    have knot: "k \<notin> fst ` set pre" using Cons.prems(3) by (auto simp: kv)
    have d2: "dicts h2 = (dicts h)[dc := (pre @ [(k, length (arrays h))]) @ its]"
      using Cons.prems(2) knot by (simp add: h2_def dict_setitem_def kv update_in_middle)
    have a2: "arrays h2 = arrays h @ [r]" by (simp add: h2_def dict_setitem_def)
    have p1: "dc < length (dicts h2)" using Cons.prems(1) by (simp add: d2)
    have p2: "dicts h2 ! dc = (pre @ [(k, length (arrays h))]) @ its"
      using Cons.prems(1) by (simp add: d2)
    have p3: "distinct (map fst ((pre @ [(k, length (arrays h))]) @ its))"
      using Cons.prems(3) by (simp add: kv)
    have p4: "\<forall>v \<in> snd ` set its. v < length (arrays h2)"
      using Cons.prems(4) by (auto simp: a2)
    have same: "map (\<lambda>kv. arrays h2 ! snd kv) its = map (\<lambda>kv. arrays h ! snd kv) its"
      using Cons.prems(4) by (auto simp: a2 nth_append)
    have step: "items_loop g (kv # its) dc h = items_loop g its dc h2"
      by (simp add: kv Inr new_array_def h2_def)
    have upt: "[length (arrays h)..<length (arrays h) + length (kv # its)] =
        length (arrays h) # [length (arrays h2)..<length (arrays h2) + length its]"
      using upt_conv_Cons[of "length (arrays h)" "length (arrays h) + length (kv # its)"]
      by (simp add: a2 del: upt_Suc)
    show ?thesis
      unfolding step Cons.IH[OF p1 p2 p3 p4] same upt
      by (auto simp: kv Inr d2 a2 split: sum.splits)
  qed
qed

lemma squeeze_loop_eq:
  assumes "\<forall>v \<in> snd ` set its. v < length (arrays h)"
  shows "squeeze_loop its dc h =
    (case find (\<lambda>kv. ndim (arrays h ! snd kv) \<noteq> 3) its of
       None \<Rightarrow> Inr h
     | Some kv \<Rightarrow> Inl (ValueError_ndim (ndim (arrays h ! snd kv))))"
  using assms
proof (induction its)
  case Nil then show ?case by simp
next
  case (Cons kv its)
  obtain k v where kv: "kv = (k, v)" by (cases kv)
  have v: "v < length (arrays h)" using Cons.prems by (simp add: kv)
  show ?case
  proof (cases "ndim (arrays h ! v) = 4")
    case True
    then show ?thesis using v
      by (simp add: kv new_array_def dict_setitem_def nth_append Let_def)
  next
    case False
    then show ?thesis using Cons by (simp add: kv)
  qed
qed

lemma map_result_append:
  "map_result g (xs @ ys) =
     (case map_result g xs of
        Inl e \<Rightarrow> Inl e
      | Inr a \<Rightarrow> (case map_result g ys of Inl e \<Rightarrow> Inl e | Inr b \<Rightarrow> Inr (a @ b)))"
  by (induction xs) (auto split: sum.splits)

lemma find_append:
  "find P (xs @ ys) = (case find P xs of None \<Rightarrow> find P ys | Some x \<Rightarrow> Some x)"
  by (induction xs) auto

lemma nth_append_two [simp]:
  "(xs @ [a, b]) ! length xs = a" "(xs @ [a, b]) ! Suc (length xs) = b"
  by (simp_all add: nth_append)

lemma update_append_two [simp]:
  "(xs @ [a, b])[length xs := c] = xs @ [c, b]" "(xs @ [a, b])[Suc (length xs) := c] = xs @ [a, c]"
  by (simp_all add: list_update_append)

lemma wf_heap_dict:
  "wf_heap h \<Longrightarrow> d < length (dicts h) \<Longrightarrow>
     distinct (map fst (dicts h ! d)) \<and> (\<forall>v \<in> snd ` set (dicts h ! d). v < length (arrays h))"
  unfolding wf_heap_def by (metis nth_mem)

lemma on_apply_keys_unfold:
  assumes "l < length (dicts h)"
  shows "on_apply_keys loop ks h i l w =
     (case (if ''input'' \<in> set ks
            then loop (dicts h ! i) (length (dicts h)) (h\<lparr>dicts := dicts h @ [dicts h ! i, dicts h ! l]\<rparr>)
            else Inr (h\<lparr>dicts := dicts h @ [dicts h ! i, dicts h ! l]\<rparr>)) of
        Inl e \<Rightarrow> Inl e
      | Inr h3 \<Rightarrow>
          (case (if ''label'' \<in> set ks
                 then loop (dicts h3 ! Suc (length (dicts h))) (Suc (length (dicts h))) h3
                 else Inr h3) of
             Inl e \<Rightarrow> Inl e
           | Inr h4 \<Rightarrow> Inr ((length (dicts h), Suc (length (dicts h)), w), h4)))"
  using assms by (simp add: on_apply_keys_def dict_copy_def nth_append cong: sum.case_cong if_cong)

lemma items_loop_whole:
  assumes "dc < length (dicts h)" "distinct (map fst (dicts h ! dc))"
    "\<forall>v \<in> snd ` set (dicts h ! dc). v < length (arrays h)"
  shows "items_loop g (dicts h ! dc) dc h =
    (case map_result g (map (\<lambda>kv. arrays h ! snd kv) (dicts h ! dc)) of
       Inl e \<Rightarrow> Inl e
     | Inr rs \<Rightarrow> Inr (h\<lparr>dicts := (dicts h)[dc := fresh_items (dicts h ! dc) (length (arrays h))],
                       arrays := arrays h @ rs\<rparr>))"
  using items_loop_eq[of dc h "[]" "dicts h ! dc" g] assms
  by (simp add: fresh_items_def cong: sum.case_cong)

lemma on_apply_keys_items_eq:
  assumes wf: "wf_heap h" and i: "i < length (dicts h)" and l: "l < length (dicts h)"
  shows "on_apply_keys (items_loop g) ks h i l w =
    (case map_result g (map (\<lambda>kv. arrays h ! snd kv) (selected_items ks h i l)) of
       Inl e \<Rightarrow> Inl e
     | Inr rs \<Rightarrow>
         Inr ((length (dicts h), Suc (length (dicts h)), w),
              h\<lparr>dicts := dicts h @
                   [if ''input'' \<in> set ks then fresh_items (dicts h ! i) (length (arrays h))
                    else dicts h ! i,
                    if ''label'' \<in> set ks
                    then fresh_items (dicts h ! l)
                           (length (arrays h) + (if ''input'' \<in> set ks then length (dicts h ! i) else 0))
                    else dicts h ! l],
                 arrays := arrays h @ rs\<rparr>))"
proof -
  let ?n = "length (dicts h)"
  let ?A = "arrays h"
  let ?I = "dicts h ! i"
  let ?L = "dicts h ! l"
  let ?h2 = "h\<lparr>dicts := dicts h @ [?I, ?L]\<rparr>"
  note wi = wf_heap_dict[OF wf i] and wl = wf_heap_dict[OF wf l]
  have in_loop: "items_loop g ?I ?n ?h2 =
     (case map_result g (map (\<lambda>kv. ?A ! snd kv) ?I) of
        Inl e \<Rightarrow> Inl e
      | Inr rs \<Rightarrow> Inr (h\<lparr>dicts := dicts h @ [fresh_items ?I (length ?A), ?L], arrays := ?A @ rs\<rparr>))"
    using items_loop_whole[of ?n ?h2 g] wi
    by (simp add: nth_append list_update_append cong: sum.case_cong)
  have lab_loop: "items_loop g ?L (Suc ?n) (h\<lparr>dicts := dicts h @ [X, ?L], arrays := ?A @ rs\<rparr>) =
     (case map_result g (map (\<lambda>kv. ?A ! snd kv) ?L) of
        Inl e \<Rightarrow> Inl e
      | Inr rs' \<Rightarrow> Inr (h\<lparr>dicts := dicts h @ [X, fresh_items ?L (length ?A + length rs)],
                         arrays := ?A @ rs @ rs'\<rparr>))" for X rs
  proof -
    have same: "map (\<lambda>kv. (?A @ rs) ! snd kv) ?L = map (\<lambda>kv. ?A ! snd kv) ?L"
      using wl by (auto simp: nth_append)
    have valid: "\<forall>v \<in> snd ` set ?L. v < length (?A @ rs)" using wl by auto
    have "items_loop g ?L (Suc ?n) (h\<lparr>dicts := dicts h @ [X, ?L], arrays := ?A @ rs\<rparr>) =
      (case map_result g (map (\<lambda>kv. (?A @ rs) ! snd kv) ?L) of
        Inl e \<Rightarrow> Inl e
      | Inr rs' \<Rightarrow> Inr (h\<lparr>dicts := dicts h @ [X, fresh_items ?L (length ?A + length rs)],
                         arrays := ?A @ rs @ rs'\<rparr>))"
      using items_loop_whole[of "Suc ?n" "h\<lparr>dicts := dicts h @ [X, ?L], arrays := ?A @ rs\<rparr>" g]
        wl valid
      by (simp add: list_update_append cong: sum.case_cong)
    then show ?thesis unfolding same .
  qed
  show ?thesis
  proof (cases "''input'' \<in> set ks")
    case inp: True
    show ?thesis
    proof (cases "map_result g (map (\<lambda>kv. ?A ! snd kv) ?I)")
      case (Inl e)
      then show ?thesis
        by (simp add: on_apply_keys_unfold[OF l] inp in_loop selected_items_def map_result_append)
    next
      case (Inr rs)
      have len: "length rs = length ?I" using map_result_length[OF Inr] by simp
      show ?thesis
        using lab_loop[where X="fresh_items ?I (length ?A)" and rs=rs]
        by (auto simp: on_apply_keys_unfold[OF l] inp in_loop selected_items_def map_result_append
            Inr len nth_append split: sum.splits)
    qed
  next
    case ninp: False
    show ?thesis
      using lab_loop[where X="?I" and rs="[]"]
      by (auto simp: on_apply_keys_unfold[OF l] ninp selected_items_def nth_append
          split: sum.splits)
  qed
qed

lemma on_apply_keys_squeeze_eq:
  assumes wf: "wf_heap h" and i: "i < length (dicts h)" and l: "l < length (dicts h)"
  shows "on_apply_keys squeeze_loop ks h i l w =
    (case find (\<lambda>kv. ndim (arrays h ! snd kv) \<noteq> 3) (selected_items ks h i l) of
       Some kv \<Rightarrow> Inl (ValueError_ndim (ndim (arrays h ! snd kv)))
     | None \<Rightarrow>
         Inr ((length (dicts h), Suc (length (dicts h)), w),
              h\<lparr>dicts := dicts h @ [dicts h ! i, dicts h ! l]\<rparr>))"
proof -
  let ?h2 = "h\<lparr>dicts := dicts h @ [dicts h ! i, dicts h ! l]\<rparr>"
  note wi = wf_heap_dict[OF wf i] and wl = wf_heap_dict[OF wf l]
  have a: "squeeze_loop (dicts h ! i) dc ?h2 =
     (case find (\<lambda>kv. ndim (arrays h ! snd kv) \<noteq> 3) (dicts h ! i) of
        None \<Rightarrow> Inr ?h2 | Some kv \<Rightarrow> Inl (ValueError_ndim (ndim (arrays h ! snd kv))))" for dc
    using squeeze_loop_eq[of "dicts h ! i" ?h2 dc] wi by (simp cong: option.case_cong)
  have b: "squeeze_loop (dicts h ! l) dc ?h2 =
     (case find (\<lambda>kv. ndim (arrays h ! snd kv) \<noteq> 3) (dicts h ! l) of
        None \<Rightarrow> Inr ?h2 | Some kv \<Rightarrow> Inl (ValueError_ndim (ndim (arrays h ! snd kv))))" for dc
    using squeeze_loop_eq[of "dicts h ! l" ?h2 dc] wl by (simp cong: option.case_cong)
  show ?thesis
    by (auto simp: on_apply_keys_unfold[OF l] selected_items_def a b find_append nth_append
        split: option.splits sum.splits)
qed

lemma in_keys_iff: "key \<in> fst ` set its \<longleftrightarrow> map_of its key \<noteq> None"
  by (simp add: map_of_eq_None_iff)

lemma Translate_loop_eq:
  "dicts h ! dc = dicts h ! d \<Longrightarrow>
   Translate_loop offs d dc h = Inr (h\<lparr>arrays := inplace_all (+) (dicts h ! d) offs (arrays h)\<rparr>)"
proof (induction offs arbitrary: h)
  case Nil then show ?case by simp
next
  case (Cons kc offs)
  obtain key c where kc: "kc = (key, c)" by (cases kc)
  show ?case
  proof (cases "map_of (dicts h ! d) key")
    case None
    then show ?thesis using Cons by (simp add: kc in_keys_iff)
  next
    case (Some v)
    define h' where "h' = dict_setitem (nd_inplace (\<lambda>x. x + c) h v) dc key v"
    have heq: "h' = h\<lparr>arrays := (arrays h)[v := NdArray (shape (arrays h ! v)) (map (\<lambda>x. x + c) (elems (arrays h ! v)))]\<rparr>"
      using Some Cons.prems list_update_id[of "dicts h" dc]
      by (simp add: h'_def dict_setitem_def nd_inplace_def update_triv)
    have "Translate_loop (kc # offs) d dc h = Translate_loop offs d dc h'"
      using Some Cons.prems by (simp add: kc in_keys_iff h'_def)
    also have "\<dots> = Inr (h'\<lparr>arrays := inplace_all (+) (dicts h' ! d) offs (arrays h')\<rparr>)"
      using Cons.IH[of h'] Cons.prems by (simp add: heq)
    finally show ?thesis using Some by (simp add: kc heq)
  qed
qed

lemma Scale_loop_eq:
  "dicts h ! dc = dicts h ! d \<Longrightarrow>
   Scale_loop offs d dc h = Inr (h\<lparr>arrays := inplace_all (*) (dicts h ! d) offs (arrays h)\<rparr>)"
proof (induction offs arbitrary: h)
  case Nil then show ?case by simp
next
  case (Cons kc offs)
  obtain key c where kc: "kc = (key, c)" by (cases kc)
  show ?case
  proof (cases "map_of (dicts h ! d) key")
    case None
    then show ?thesis using Cons by (simp add: kc in_keys_iff)
  next
    case (Some v)
    define h' where "h' = dict_setitem (nd_inplace (\<lambda>x. x * c) h v) dc key v"
    have heq: "h' = h\<lparr>arrays := (arrays h)[v := NdArray (shape (arrays h ! v)) (map (\<lambda>x. x * c) (elems (arrays h ! v)))]\<rparr>"
      using Some Cons.prems list_update_id[of "dicts h" dc]
      by (simp add: h'_def dict_setitem_def nd_inplace_def update_triv)
    have "Scale_loop (kc # offs) d dc h = Scale_loop offs d dc h'"
      using Some Cons.prems by (simp add: kc in_keys_iff h'_def)
    also have "\<dots> = Inr (h'\<lparr>arrays := inplace_all (*) (dicts h' ! d) offs (arrays h')\<rparr>)"
      using Cons.IH[of h'] Cons.prems by (simp add: heq)
    finally show ?thesis using Some by (simp add: kc heq)
  qed
qed

lemma Translate_call_eq:
  assumes "d < length (dicts h)"
  shows "Translate_call self h d l w =
    Inr ((length (dicts h), l, w),
         h\<lparr>dicts := dicts h @ [dicts h ! d],
           arrays := inplace_all (+) (dicts h ! d) (offset self) (arrays h)\<rparr>)"
  using assms Translate_loop_eq[of "h\<lparr>dicts := dicts h @ [dicts h ! d]\<rparr>" "length (dicts h)" d "offset self"]
  by (simp add: Translate_call_def dict_copy_def nth_append)

lemma Scale_call_eq:
  assumes "d < length (dicts h)"
  shows "Scale_call self h d l w =
    Inr ((length (dicts h), l, w),
         h\<lparr>dicts := dicts h @ [dicts h ! d],
           arrays := inplace_all (*) (dicts h ! d) (Scale.scale self) (arrays h)\<rparr>)"
  using assms Scale_loop_eq[of "h\<lparr>dicts := dicts h @ [dicts h ! d]\<rparr>" "length (dicts h)" d "Scale.scale self"]
  by (simp add: Scale_call_def dict_copy_def nth_append)

lemma length_inplace_all [simp]: "length (inplace_all f its offs arrs) = length arrs"
  by (induction offs arbitrary: arrs) (auto split: option.splits)

lemma inplace_all_untouched:
  "\<forall>(key, c) \<in> set offs. map_of its key \<noteq> Some a \<Longrightarrow> inplace_all f its offs arrs ! a = arrs ! a"
  by (induction offs arbitrary: arrs) (auto split: option.splits)

lemma inplace_all_once:
  assumes "distinct (map fst offs)" "(key, c) \<in> set offs" "map_of its key = Some a"
    "\<forall>(key', c') \<in> set offs. key' \<noteq> key \<longrightarrow> map_of its key' \<noteq> Some a"
    "a < length arrs"
  shows "inplace_all f its offs arrs ! a =
    NdArray (shape (arrs ! a)) (map (\<lambda>x. f x c) (elems (arrs ! a)))"
  using assms
proof (induction offs arbitrary: arrs)
  case Nil then show ?case by simp
next
  case (Cons kc offs)
  obtain k' c' where kc: "kc = (k', c')" by (cases kc)
  show ?case
  proof (cases "k' = key")
    case True
    then have c: "c' = c" using Cons.prems(1,2) by (auto simp: kc rev_image_eqI)
    have rest: "\<forall>(key', c') \<in> set offs. map_of its key' \<noteq> Some a"
      using Cons.prems(1,4) True by (auto simp: kc rev_image_eqI)
    show ?thesis
      using Cons.prems(3,5) inplace_all_untouched[OF rest] True c by (simp add: kc)
  next
    case False
    then have notA: "map_of its k' \<noteq> Some a" using Cons.prems(4) by (auto simp: kc)
    have mem: "(key, c) \<in> set offs" using Cons.prems(2) False by (auto simp: kc)
    have d: "distinct (map fst offs)" using Cons.prems(1) by simp
    have r: "\<forall>(key', c') \<in> set offs. key' \<noteq> key \<longrightarrow> map_of its key' \<noteq> Some a"
      using Cons.prems(4) by auto
    show ?thesis
    proof (cases "map_of its k'")
      case None
      then show ?thesis using Cons.IH[OF d mem Cons.prems(3) r Cons.prems(5)] by (simp add: kc)
    next
      case (Some v)
      then have "v \<noteq> a" using notA by auto
      then show ?thesis
        using Cons.IH[OF d mem Cons.prems(3) r, of "arrs[v := NdArray (shape (arrs ! v)) (map (\<lambda>x. f x c') (elems (arrs ! v)))]"]
          Cons.prems(5) Some
        by (simp add: kc)
    qed
  qed
qed

section \<open>Broadcasting against a scalar, an equal shape and a vector along the last axis\<close>

lemma broadcast_rev_Nil2 [simp]: "broadcast_rev xs [] = Some xs"
  by (cases xs) simp_all

lemma broadcast_rev_same [simp]: "broadcast_rev xs xs = Some xs"
  by (induction xs) simp_all

lemma broadcast_shapes_scalar [simp]: "broadcast_shapes s [] = Some s"
  by (simp add: broadcast_shapes_def)

lemma broadcast_shapes_same [simp]: "broadcast_shapes s s = Some s"
  by (simp add: broadcast_shapes_def)

lemma broadcast_shapes_last [simp]: "broadcast_shapes (pre @ [n]) [n] = Some (pre @ [n])"
  by (simp add: broadcast_shapes_def)

lemma length_unravel [simp]: "length (unravel s k) = length s"
  by (induction s arbitrary: k) simp_all

lemma ravel_unravel: "k < prod_list s \<Longrightarrow> ravel s (unravel s k) = k"
proof (induction s arbitrary: k)
  case Nil then show ?case by simp
next
  case (Cons d ds)
  then have pos: "0 < prod_list ds" by (cases "prod_list ds = 0") auto
  then have "k mod prod_list ds < prod_list ds" by simp
  then show ?case using Cons.IH by simp
qed

lemma unravel_in_range:
  "k < prod_list s \<Longrightarrow> list_all2 (\<lambda>i d. i < d) (unravel s k) s"
proof (induction s arbitrary: k)
  case Nil then show ?case by simp
next
  case (Cons d ds)
  then have pos: "0 < prod_list ds" by (cases "prod_list ds = 0") auto
  have "k div prod_list ds < d"
    using Cons.prems pos by (simp add: less_mult_imp_div_less mult.commute)
  moreover have "k mod prod_list ds < prod_list ds" using pos by simp
  ultimately show ?case using Cons.IH by simp
qed

lemma bc_index_same_aux:
  "list_all2 (\<lambda>i d. i < d) idx (s :: nat list) \<Longrightarrow>
     map2 (\<lambda>d i. if d = 1 then 0 else i) s idx = idx"
  by (induction idx s rule: list_all2_induct) (simp_all add: less_Suc_eq)

lemma bc_index_unravel:
  assumes "k < prod_list s"
  shows "bc_index s (unravel s k) = unravel s k"
proof -
  have "bc_index s (unravel s k) = map2 (\<lambda>d i. if d = 1 then 0 else i) s (unravel s k)"
    by (simp add: bc_index_def)
  also have "\<dots> = unravel s k"
    by (rule bc_index_same_aux[OF unravel_in_range[OF assms]])
  finally show ?thesis .
qed

lemma bc_index_Nil [simp]: "bc_index [] idx = []"
  by (simp add: bc_index_def)

lemma map_nth_fun: "map (\<lambda>i. g (xs ! i)) [0..<length xs] = map g xs"
  by (rule nth_equalityI) simp_all

lemma nd_binop_scalar:
  assumes "wf_array a"
  shows "nd_binop f a (NdArray [] [m]) = Inr (NdArray (shape a) (map (\<lambda>x. f x m) (elems a)))"
proof -
  have "map (\<lambda>k. f (elems a ! ravel (shape a) (bc_index (shape a) (unravel (shape a) k)))
                   ([m] ! ravel [] (bc_index [] (unravel (shape a) k)))) [0..<prod_list (shape a)]
      = map (\<lambda>k. f (elems a ! k) m) [0..<length (elems a)]"
    using assms by (simp add: wf_array_def bc_index_unravel ravel_unravel)
  then show ?thesis
    using map_nth_fun[of "\<lambda>x. f x m" "elems a"] by (simp add: nd_binop_def)
qed

lemma nd_binop_same_shape:
  assumes "wf_array a" "wf_array b" "shape b = shape a"
  shows "nd_binop f a b = Inr (NdArray (shape a) (map2 f (elems a) (elems b)))"
proof -
  have "map (\<lambda>k. f (elems a ! ravel (shape a) (bc_index (shape a) (unravel (shape a) k)))
                   (elems b ! ravel (shape a) (bc_index (shape a) (unravel (shape a) k))))
          [0..<prod_list (shape a)]
      = map2 f (elems a) (elems b)"
    using assms
    by (intro nth_equalityI) (simp_all add: wf_array_def bc_index_unravel ravel_unravel)
  then show ?thesis using assms by (simp add: nd_binop_def)
qed

lemma last_unravel:
  "k < prod_list (pre @ [n]) \<Longrightarrow> last (unravel (pre @ [n]) k) = k mod n"
proof (induction pre arbitrary: k)
  case Nil then show ?case by simp
next
  case (Cons d ds)
  then have pos: "0 < prod_list (ds @ [n])" by (cases "prod_list (ds @ [n]) = 0") auto
  then have lt: "k mod prod_list (ds @ [n]) < prod_list (ds @ [n])" by simp
  have "last (unravel ((d # ds) @ [n]) k) = last (unravel (ds @ [n]) (k mod prod_list (ds @ [n])))"
  proof -
    have "unravel (ds @ [n]) (k mod prod_list (ds @ [n])) \<noteq> []"
      by (metis length_unravel length_0_conv snoc_eq_iff_butlast)
    then show ?thesis by simp
  qed
  also have "\<dots> = (k mod prod_list (ds @ [n])) mod n" using Cons.IH[OF lt] .
  also have "\<dots> = k mod n" by (simp add: mod_mod_cancel)
  finally show ?case .
qed

lemma bc_index_last:
  assumes "k < prod_list (pre @ [n])"
  shows "ravel [n] (bc_index [n] (unravel (pre @ [n]) k)) = k mod n"
proof -
  let ?idx = "unravel (pre @ [n]) k"
  have len: "length ?idx = Suc (length pre)" by simp
  then have "drop (length ?idx - 1) ?idx = [last ?idx]"
    by (metis diff_Suc_1 length_0_conv nat.simps(3) append_butlast_last_id append_eq_conv_conj
        length_butlast)
  then show ?thesis using last_unravel[OF assms] by (simp add: bc_index_def)
qed

lemma nd_binop_last_axis:
  assumes "wf_array a" "shape a = pre @ [n]" "length ms = n"
  shows "nd_binop f a (NdArray [n] ms) =
    Inr (NdArray (shape a) (map (\<lambda>k. f (elems a ! k) (ms ! (k mod n))) [0..<length (elems a)]))"
proof -
  have "map (\<lambda>k. f (elems a ! ravel (shape a) (bc_index (shape a) (unravel (shape a) k)))
                   (ms ! ravel [n] (bc_index [n] (unravel (shape a) k)))) [0..<prod_list (shape a)]
      = map (\<lambda>k. f (elems a ! k) (ms ! (k mod n))) [0..<length (elems a)]"
    using assms bc_index_last[of _ pre n]
    by (simp add: wf_array_def bc_index_unravel ravel_unravel)
  then show ?thesis using assms by (simp add: nd_binop_def)
qed

section \<open>Cropping a tensor of three axes\<close>

lemma slice_bound_le: "slice_bound i n \<le> n"
  unfolding slice_bound_def by (auto simp: max_def min_def)

lemma slice_bound_nonneg: "0 \<le> i \<Longrightarrow> i \<le> int n \<Longrightarrow> slice_bound i n = nat i"
  by (simp add: slice_bound_def)

lemma row_major_bound: "c < C \<Longrightarrow> i < (H :: nat) \<Longrightarrow> c * H + i < C * H"
proof -
  assume c: "c < C" and i: "i < H"
  have "c * H + i < c * H + H" using i by simp
  also have "\<dots> = Suc c * H" by simp
  also have "\<dots> \<le> C * H" using c by (intro mult_le_mono1) simp
  finally show ?thesis .
qed

lemma length_concat_map_const:
  "(\<And>x. x \<in> set xs \<Longrightarrow> length (f x) = m) \<Longrightarrow> length (concat (map f xs)) = length xs * m"
  by (induction xs) simp_all

lemma concat_map_nth:
  "(\<And>x. x \<in> set xs \<Longrightarrow> length (f x) = m) \<Longrightarrow> i < length xs \<Longrightarrow> r < m \<Longrightarrow>
     concat (map f xs) ! (i * m + r) = f (xs ! i) ! r"
proof (induction xs arbitrary: i)
  case Nil then show ?case by simp
next
  case (Cons x xs)
  show ?case
  proof (cases i)
    case 0
    then show ?thesis using Cons.prems by (simp add: nth_append)
  next
    case (Suc i')
    have "concat (map f (x # xs)) ! (i * m + r) = concat (map f xs) ! (i' * m + r)"
      using Cons.prems(1)[of x] by (simp add: Suc nth_append add.assoc)
    then show ?thesis using Cons.IH[of i'] Cons.prems by (simp add: Suc)
  qed
qed

lemma take1_drop: "k < length xs \<Longrightarrow> take (Suc 0) (drop k xs) = [xs ! k]"
  by (simp add: take_Suc_conv_app_nth hd_drop_conv_nth take_Suc)

lemma crop_value_3d:
  assumes "xmin self = [x0, y0]" "xmax self = [x1, y1]" "shape val = [C, H, W]" "wf_array val"
  shows "crop_value self val =
    Inr (NdArray [C, slice_bound x1 H - slice_bound x0 H, slice_bound y1 W - slice_bound y0 W]
      (concat (map (\<lambda>c.
         concat (map (\<lambda>i. map (\<lambda>j. elems val ! ((c * H + i) * W + j))
                              [slice_bound y0 W..<slice_bound y1 W])
                 [slice_bound x0 H..<slice_bound x1 H]))
         [0..<C])))"
proof -
  have len: "length (elems val) = C * H * W" using assms by (simp add: wf_array_def)
  have inner: "concat (map (\<lambda>j. take (Suc 0) (drop ((c * H + i) * W + j) (elems val)))
                    [slice_bound y0 W..<slice_bound y1 W]) =
               map (\<lambda>j. elems val ! ((c * H + i) * W + j)) [slice_bound y0 W..<slice_bound y1 W]"
    if "c < C" "i < slice_bound x1 H" for c i
  proof -
    have iH: "i < H" using that slice_bound_le[of x1 H] by simp
    have "(c * H + i) * W + j < length (elems val)" if "j < slice_bound y1 W" for j
    proof -
      have "j < W" using that slice_bound_le[of y1 W] by simp
      then show ?thesis
        using row_major_bound[OF row_major_bound[OF \<open>c < C\<close> iH], of j W] by (simp add: len)
    qed
    then have "map (\<lambda>j. take (Suc 0) (drop ((c * H + i) * W + j) (elems val)))
                 [slice_bound y0 W..<slice_bound y1 W] =
               map (\<lambda>j. [elems val ! ((c * H + i) * W + j)]) [slice_bound y0 W..<slice_bound y1 W]"
      by (simp add: take1_drop)
    then have "concat (map (\<lambda>j. take (Suc 0) (drop ((c * H + i) * W + j) (elems val)))
                 [slice_bound y0 W..<slice_bound y1 W]) =
               concat (map (\<lambda>j. [elems val ! ((c * H + i) * W + j)])
                 [slice_bound y0 W..<slice_bound y1 W])"
      by (rule arg_cong)
    then show ?thesis by simp
  qed
  have outer: "concat (map (\<lambda>c. concat (map (\<lambda>i.
                   concat (map (\<lambda>j. take (Suc 0) (drop ((c * H + i) * W + j) (elems val)))
                     [slice_bound y0 W..<slice_bound y1 W]))
                   [slice_bound x0 H..<slice_bound x1 H])) [0..<C]) =
               concat (map (\<lambda>c. concat (map (\<lambda>i.
                   map (\<lambda>j. elems val ! ((c * H + i) * W + j))
                     [slice_bound y0 W..<slice_bound y1 W])
                   [slice_bound x0 H..<slice_bound x1 H])) [0..<C])"
    apply (rule arg_cong[where f = concat])
    apply (rule map_cong[OF refl])
    apply (rule arg_cong[where f = concat])
    apply (rule map_cong[OF refl])
    apply (simp add: inner)
    done
  show ?thesis
    using assms outer by (simp add: crop_value_def Let_def)
qed

lemma row_major_assoc: "(c * hh + i) * ww + j = c * (hh * ww) + (i * ww + (j :: nat))"
  by (simp add: algebra_simps)

lemma crop_value_sliced:
  assumes "xmin self = [x0, y0]" "xmax self = [x1, y1]" "shape val = [C, H, W]" "wf_array val"
  shows "\<exists>r. crop_value self val = Inr r \<and> sliced_3d x0 x1 y0 y1 val r"
proof -
  let ?a1 = "slice_bound x0 H" and ?b1 = "slice_bound x1 H"
  let ?a2 = "slice_bound y0 W" and ?b2 = "slice_bound y1 W"
  let ?G = "\<lambda>c i. map (\<lambda>j. elems val ! ((c * H + i) * W + j)) [?a2..<?b2]"
  let ?F = "\<lambda>c. concat (map (?G c) [?a1..<?b1])"
  let ?es = "concat (map ?F [0..<C])"
  have eq: "crop_value self val = Inr (NdArray [C, ?b1 - ?a1, ?b2 - ?a2] ?es)"
    by (rule crop_value_3d[OF assms])
  have lenG: "length (?G c i) = ?b2 - ?a2" for c i by simp
  have lenF: "length (?F c) = (?b1 - ?a1) * (?b2 - ?a2)" for c
    using length_concat_map_const[of "[?a1..<?b1]" "?G c" "?b2 - ?a2"] by simp
  have len: "length ?es = C * (?b1 - ?a1) * (?b2 - ?a2)"
    using length_concat_map_const[of "[0..<C]" ?F "(?b1 - ?a1) * (?b2 - ?a2)"] lenF
    by (simp add: mult.assoc)
  have nth: "?es ! ((c * (?b1 - ?a1) + i) * (?b2 - ?a2) + j) =
             elems val ! ((c * H + (?a1 + i)) * W + (?a2 + j))"
    if "c < C" "i < ?b1 - ?a1" "j < ?b2 - ?a2" for c i j
  proof -
    have r: "i * (?b2 - ?a2) + j < (?b1 - ?a1) * (?b2 - ?a2)"
      using row_major_bound[OF that(2,3)] .
    have idx: "(c * (?b1 - ?a1) + i) * (?b2 - ?a2) + j =
          c * ((?b1 - ?a1) * (?b2 - ?a2)) + (i * (?b2 - ?a2) + j)"
      by (rule row_major_assoc)
    have "?es ! (c * ((?b1 - ?a1) * (?b2 - ?a2)) + (i * (?b2 - ?a2) + j)) =
               ?F ([0..<C] ! c) ! (i * (?b2 - ?a2) + j)"
    proof (rule concat_map_nth)
      show "length (?F x) = (?b1 - ?a1) * (?b2 - ?a2)" for x by (rule lenF)
      show "c < length [0..<C]" using that(1) by simp
      show "i * (?b2 - ?a2) + j < (?b1 - ?a1) * (?b2 - ?a2)" by (rule r)
    qed
    then have "?es ! ((c * (?b1 - ?a1) + i) * (?b2 - ?a2) + j) =
               ?F ([0..<C] ! c) ! (i * (?b2 - ?a2) + j)"
      unfolding idx .
    also have "\<dots> = ?F c ! (i * (?b2 - ?a2) + j)" using that(1) by simp
    also have "\<dots> = ?G c ([?a1..<?b1] ! i) ! j"
      using concat_map_nth[of "[?a1..<?b1]" "?G c" "?b2 - ?a2" i j] that(2,3) by simp
    also have "\<dots> = elems val ! ((c * H + (?a1 + i)) * W + (?a2 + j))"
      using that(2,3) by simp
    finally show ?thesis .
  qed
  have "sliced_3d x0 x1 y0 y1 val (NdArray [C, ?b1 - ?a1, ?b2 - ?a2] ?es)"
    unfolding sliced_3d_def using assms(3) len nth
    by (simp add: Let_def list_all_iff del: upt_Suc)
  then show ?thesis using eq by blast
qed

section \<open>What a call returns\<close>

lemma map_fst_fresh_items [simp]: "map fst (fresh_items its na) = map fst its"
  by (simp add: fresh_items_def)

lemma length_fresh_items [simp]: "length (fresh_items its na) = length its"
  by (simp add: fresh_items_def)

lemma fresh_items_nth: "j < length its \<Longrightarrow> fresh_items its na ! j = (fst (its ! j), na + j)"
  by (simp add: fresh_items_def)

lemma fresh_items_rel:
  assumes "map_result g (map (\<lambda>kv. A ! snd kv) (P @ its @ S)) = Inr rs"
  shows "list_all2 (\<lambda>kv kv'. fst kv' = fst kv \<and> length A \<le> snd kv' \<and>
            snd kv' < length (A @ rs) \<and> g (A ! snd kv) = Inr ((A @ rs) ! snd kv'))
          its (fresh_items its (length A + length P))"
proof -
  have len: "length rs = length P + length its + length S"
    using map_result_length[OF assms] by simp
  have "g (A ! snd (its ! j)) = Inr (rs ! (length P + j))" if "j < length its" for j
    using map_result_nth[OF assms, of "length P + j"] that by (simp add: nth_append)
  then show ?thesis
    by (simp add: list_all2_conv_all_nth fresh_items_nth len nth_append)
qed

lemma on_apply_keys_items_replaces:
  assumes wf: "wf_heap h" and i: "i < length (dicts h)" and l: "l < length (dicts h)"
    and ok: "\<forall>kv \<in> set (selected_items ks h i l). \<exists>r. g (arrays h ! snd kv) = Inr r"
  shows "\<exists>h'. on_apply_keys (items_loop g) ks h i l w =
                 Inr ((length (dicts h), Suc (length (dicts h)), w), h') \<and>
      old_objects_kept h h' \<and>
      (if ''input'' \<in> set ks
       then replaced_by g h h' (dicts h ! i) (dicts h' ! length (dicts h))
       else dicts h' ! length (dicts h) = dicts h ! i) \<and>
      (if ''label'' \<in> set ks
       then replaced_by g h h' (dicts h ! l) (dicts h' ! Suc (length (dicts h)))
       else dicts h' ! Suc (length (dicts h)) = dicts h ! l)"
proof -
  let ?sel = "selected_items ks h i l"
  have "\<exists>rs. map_result g (map (\<lambda>kv. arrays h ! snd kv) ?sel) = Inr rs"
    by (rule map_result_all_Inr) (use ok in auto)
  then obtain rs where rs: "map_result g (map (\<lambda>kv. arrays h ! snd kv) ?sel) = Inr rs" ..
  let ?I = "if ''input'' \<in> set ks then dicts h ! i else []"
  let ?L = "if ''label'' \<in> set ks then dicts h ! l else []"
  have sel: "?sel = ?I @ ?L" by (simp add: selected_items_def)
  have relI: "''input'' \<in> set ks \<Longrightarrow>
      list_all2 (\<lambda>kv kv'. fst kv' = fst kv \<and> length (arrays h) \<le> snd kv' \<and>
            snd kv' < length (arrays h @ rs) \<and> g (arrays h ! snd kv) = Inr ((arrays h @ rs) ! snd kv'))
        (dicts h ! i) (fresh_items (dicts h ! i) (length (arrays h)))"
    using fresh_items_rel[of g "arrays h" "[]" "dicts h ! i" ?L rs] rs by (simp add: sel)
  have relL: "''label'' \<in> set ks \<Longrightarrow>
      list_all2 (\<lambda>kv kv'. fst kv' = fst kv \<and> length (arrays h) \<le> snd kv' \<and>
            snd kv' < length (arrays h @ rs) \<and> g (arrays h ! snd kv) = Inr ((arrays h @ rs) ! snd kv'))
        (dicts h ! l) (fresh_items (dicts h ! l) (length (arrays h) + length ?I))"
    using fresh_items_rel[of g "arrays h" ?I "dicts h ! l" "[]" rs] rs by (simp add: sel)
  show ?thesis
    unfolding on_apply_keys_items_eq[OF wf i l] rs
    using relI relL
    by (cases "''input'' \<in> set ks") (simp_all add: old_objects_kept_def replaced_by_def)
qed

lemma on_apply_keys_items_Inr:
  assumes wf: "wf_heap h" and i: "i < length (dicts h)" and l: "l < length (dicts h)"
    and ret: "on_apply_keys (items_loop g) ks h i l w = Inr (res, h')"
  shows "res = (length (dicts h), Suc (length (dicts h)), w) \<and>
     old_objects_kept h h' \<and>
     map fst (dicts h' ! length (dicts h)) = map fst (dicts h ! i) \<and>
     map fst (dicts h' ! Suc (length (dicts h))) = map fst (dicts h ! l)"
  using ret unfolding on_apply_keys_items_eq[OF wf i l]
  by (auto simp: old_objects_kept_def split: sum.splits)

lemma on_apply_keys_squeeze_Inr:
  assumes wf: "wf_heap h" and i: "i < length (dicts h)" and l: "l < length (dicts h)"
    and ret: "on_apply_keys squeeze_loop ks h i l w = Inr (res, h')"
  shows "res = (length (dicts h), Suc (length (dicts h)), w) \<and>
     old_objects_kept h h' \<and>
     map fst (dicts h' ! length (dicts h)) = map fst (dicts h ! i) \<and>
     map fst (dicts h' ! Suc (length (dicts h))) = map fst (dicts h ! l)"
  using ret unfolding on_apply_keys_squeeze_eq[OF wf i l]
  by (auto simp: old_objects_kept_def split: option.splits)

section \<open>Normalize\<close>

lemma normalize_value_scalar:
  assumes "mean self = NdArray [] [m]" "std self = NdArray [] [s]" "wf_array val"
  shows "normalize_value self val = Inr (NdArray (shape val) (map (\<lambda>x. (x - m) / s) (elems val)))"
proof -
  have 1: "nd_binop (-) val (NdArray [] [m]) = Inr (NdArray (shape val) (map (\<lambda>x. x - m) (elems val)))"
    by (rule nd_binop_scalar[OF assms(3)])
  have wf: "wf_array (NdArray (shape val) (map (\<lambda>x. x - m) (elems val)))"
    using assms(3) by (simp add: wf_array_def)
  show ?thesis
    using nd_binop_scalar[OF wf, of "(/)" s] by (simp add: normalize_value_def assms(1,2) 1 comp_def)
qed

lemma normalize_value_last_axis:
  assumes "mean self = NdArray [n] ms" "std self = NdArray [n] ss" "length ms = n" "length ss = n"
    "wf_array val" "shape val = pre @ [n]"
  shows "normalize_value self val =
    Inr (NdArray (shape val)
      (map (\<lambda>k. (elems val ! k - ms ! (k mod n)) / ss ! (k mod n)) [0..<length (elems val)]))"
proof -
  let ?d = "NdArray (shape val) (map (\<lambda>k. elems val ! k - ms ! (k mod n)) [0..<length (elems val)])"
  have 1: "nd_binop (-) val (NdArray [n] ms) = Inr ?d"
    by (rule nd_binop_last_axis[OF assms(5,6,3)])
  have wf: "wf_array ?d" using assms(5) by (simp add: wf_array_def)
  have sh: "shape ?d = pre @ [n]" using assms(6) by simp
  have 2: "nd_binop (/) ?d (NdArray [n] ss) =
      Inr (NdArray (shape ?d) (map (\<lambda>k. elems ?d ! k / ss ! (k mod n)) [0..<length (elems ?d)]))"
    by (rule nd_binop_last_axis[OF wf sh assms(4)])
  show ?thesis
    unfolding normalize_value_def assms(1,2) 1 using 2 by simp
qed

text \<open>
  C6: Normalize replaces every tensor of each mapping named in apply_keys by
  \<open>(v - mean) / std\<close>, and returns a mapping that is not named with the items it
  had. Stated for a standard deviation without a zero component (the model divides in the
  reals) and for tensors that broadcast against mean and std: the call returns two new
  dictionaries and the weights as given; every object of the store before the call is as
  it was; in a named mapping each key now holds a new array, the value of
  \<open>normalize_value\<close> at the array it held; a mapping that is not named is copied
  item by item. \<open>normalize_value\<close> is the elementwise \<open>(x - m) / s\<close> for a scalar
  mean and std, and for vectors of the length of the last axis it takes the component of
  the position along that axis.
\<close>

theorem Normalize_call_replaces:
  assumes "wf_heap h" "input_item < length (dicts h)" "label_item < length (dicts h)"
    and "0 \<notin> set (elems (std self))"
    and "\<forall>kv \<in> set (selected_items (Normalize.apply_keys self) h input_item label_item).
           \<exists>r. normalize_value self (arrays h ! snd kv) = Inr r"
  shows "(\<exists>h'. Normalize_call self h input_item label_item weight_item =
                 Inr ((length (dicts h), Suc (length (dicts h)), weight_item), h') \<and>
            old_objects_kept h h' \<and>
            (if ''input'' \<in> set (Normalize.apply_keys self)
             then replaced_by (normalize_value self) h h'
                    (dicts h ! input_item) (dicts h' ! length (dicts h))
             else dicts h' ! length (dicts h) = dicts h ! input_item) \<and>
            (if ''label'' \<in> set (Normalize.apply_keys self)
             then replaced_by (normalize_value self) h h'
                    (dicts h ! label_item) (dicts h' ! Suc (length (dicts h)))
             else dicts h' ! Suc (length (dicts h)) = dicts h ! label_item)) \<and>
         (\<forall>val m s. mean self = NdArray [] [m] \<and> std self = NdArray [] [s] \<and> wf_array val \<longrightarrow>
            normalize_value self val =
              Inr (NdArray (shape val) (map (\<lambda>x. (x - m) / s) (elems val)))) \<and>
         (\<forall>val pre n ms ss.
            mean self = NdArray [n] ms \<and> std self = NdArray [n] ss \<and> length ms = n \<and>
            length ss = n \<and> wf_array val \<and> shape val = pre @ [n] \<longrightarrow>
            normalize_value self val =
              Inr (NdArray (shape val)
                (map (\<lambda>k. (elems val ! k - ms ! (k mod n)) / ss ! (k mod n))
                   [0..<length (elems val)])))"
proof (intro conjI allI impI)
  show "\<exists>h'. Normalize_call self h input_item label_item weight_item =
                 Inr ((length (dicts h), Suc (length (dicts h)), weight_item), h') \<and>
            old_objects_kept h h' \<and>
            (if ''input'' \<in> set (Normalize.apply_keys self)
             then replaced_by (normalize_value self) h h'
                    (dicts h ! input_item) (dicts h' ! length (dicts h))
             else dicts h' ! length (dicts h) = dicts h ! input_item) \<and>
            (if ''label'' \<in> set (Normalize.apply_keys self)
             then replaced_by (normalize_value self) h h'
                    (dicts h ! label_item) (dicts h' ! Suc (length (dicts h)))
             else dicts h' ! Suc (length (dicts h)) = dicts h ! label_item)"
    unfolding Normalize_call_def
    by (rule on_apply_keys_items_replaces[OF assms(1,2,3,5)])
next
  fix val m s
  assume "mean self = NdArray [] [m] \<and> std self = NdArray [] [s] \<and> wf_array val"
  then show "normalize_value self val =
      Inr (NdArray (shape val) (map (\<lambda>x. (x - m) / s) (elems val)))"
    using normalize_value_scalar by blast
next
  fix val pre n ms ss
  assume "mean self = NdArray [n] ms \<and> std self = NdArray [n] ss \<and> length ms = n \<and>
            length ss = n \<and> wf_array val \<and> shape val = pre @ [n]"
  then show "normalize_value self val =
      Inr (NdArray (shape val)
        (map (\<lambda>k. (elems val ! k - ms ! (k mod n)) / ss ! (k mod n)) [0..<length (elems val)]))"
    using normalize_value_last_axis by blast
qed

theorem Normalize_call_replaces_witness:
  "Normalize_call \<lparr>mean = NdArray [] [0], std = NdArray [] [2], apply_keys = [''input'']\<rparr>
     \<lparr>dicts = [[(''x'', 0)], [(''y'', 1)]], arrays = [NdArray [] [4], NdArray [] [7]]\<rparr> 0 1 None =
   Inr ((2, 3, None),
        \<lparr>dicts = [[(''x'', 0)], [(''y'', 1)], [(''x'', 2)], [(''y'', 1)]],
         arrays = [NdArray [] [4], NdArray [] [7], NdArray [] [2]]\<rparr>)"
proof -
  let ?self = "\<lparr>mean = NdArray [] [0], std = NdArray [] [2], apply_keys = [''input'']\<rparr>"
  let ?h = "\<lparr>dicts = [[(''x'', 0)], [(''y'', 1)]], arrays = [NdArray [] [4], NdArray [] [7]]\<rparr>"
  have nv: "normalize_value ?self (NdArray [] [4]) = Inr (NdArray [] [2])"
    by (simp add: normalize_value_scalar wf_array_def)
  have wf: "wf_heap ?h" by (simp add: wf_heap_def)
  have sel: "\<forall>kv \<in> set (selected_items (Normalize.apply_keys ?self) ?h 0 1).
           \<exists>r. normalize_value ?self (arrays ?h ! snd kv) = Inr r"
    by (simp add: selected_items_def nv)
  from Normalize_call_replaces[OF wf _ _ _ sel, of None]
  obtain h' where call: "Normalize_call ?self ?h 0 1 None = Inr ((2, 3, None), h')"
    and kept: "old_objects_kept ?h h'"
    and rep: "replaced_by (normalize_value ?self) ?h h' [(''x'', 0)] (dicts h' ! 2)"
    and lab: "dicts h' ! 3 = [(''y'', 1)]"
    by (auto simp: numeral_2_eq_2 numeral_3_eq_3)
  have ev: "Normalize_call ?self ?h 0 1 None =
      Inr ((2, 3, None),
        \<lparr>dicts = [[(''x'', 0)], [(''y'', 1)], [(''x'', 2)], [(''y'', 1)]],
         arrays = [NdArray [] [4], NdArray [] [7], NdArray [] [2]]\<rparr>)"
    by (simp add: Normalize_call_def on_apply_keys_def dict_copy_def new_array_def
        dict_setitem_def nv)
  from call kept rep lab ev show ?thesis by simp
qed

section \<open>CropData\<close>

lemma shape_of_rank3: "ndim val = 3 \<Longrightarrow> \<exists>C H W. shape val = [C, H, W]"
  by (auto simp: ndim_def numeral_3_eq_3 length_Suc_conv)

text \<open>
  C7: CropData with \<open>xmin = (x0, y0)\<close> and \<open>xmax = (x1, y1)\<close> replaces every
  tensor of shape \<open>[channels, H, W]\<close> of each mapping named in apply_keys by the
  sub-tensor \<open>[:, x0:x1, y0:y1]\<close>: when all tensors of the named mappings have three
  axes the call returns, in a named mapping each key holds a new array, the value of
  \<open>crop_value\<close> at the array it held, and that value is the slice as \<open>sliced_3d\<close>
  states it position by position. With corners (0, 0) and (2, 3) a tensor of shape
  \<open>[C, 5, 5]\<close> gives one of shape \<open>[C, 2, 3]\<close>.
\<close>

theorem CropData_call_slices:
  assumes "wf_heap h" "input_item < length (dicts h)" "label_item < length (dicts h)"
    and "xmin self = [x0, y0]" "xmax self = [x1, y1]"
    and "\<forall>kv \<in> set (selected_items (CropData.apply_keys self) h input_item label_item).
           ndim (arrays h ! snd kv) = 3 \<and> wf_array (arrays h ! snd kv)"
  shows "(\<exists>h'. CropData_call self h input_item label_item weight_item =
                 Inr ((length (dicts h), Suc (length (dicts h)), weight_item), h') \<and>
            old_objects_kept h h' \<and>
            (if ''input'' \<in> set (CropData.apply_keys self)
             then replaced_by (crop_value self) h h'
                    (dicts h ! input_item) (dicts h' ! length (dicts h))
             else dicts h' ! length (dicts h) = dicts h ! input_item) \<and>
            (if ''label'' \<in> set (CropData.apply_keys self)
             then replaced_by (crop_value self) h h'
                    (dicts h ! label_item) (dicts h' ! Suc (length (dicts h)))
             else dicts h' ! Suc (length (dicts h)) = dicts h ! label_item)) \<and>
         (\<forall>val. ndim val = 3 \<and> wf_array val \<longrightarrow>
            (\<exists>r. crop_value self val = Inr r \<and> sliced_3d x0 x1 y0 y1 val r)) \<and>
         (\<forall>val C. x0 = 0 \<and> y0 = 0 \<and> x1 = 2 \<and> y1 = 3 \<and> shape val = [C, 5, 5] \<and> wf_array val \<longrightarrow>
            (\<exists>r. crop_value self val = Inr r \<and> shape r = [C, 2, 3]))"
proof -
  have crop: "\<exists>r. crop_value self val = Inr r \<and> sliced_3d x0 x1 y0 y1 val r"
    if "ndim val = 3" "wf_array val" for val
  proof -
    from shape_of_rank3[OF that(1)] obtain C H W where "shape val = [C, H, W]" by blast
    then show ?thesis using crop_value_sliced[OF assms(4,5) _ that(2)] by blast
  qed
  have ok: "\<forall>kv \<in> set (selected_items (CropData.apply_keys self) h input_item label_item).
           \<exists>r. crop_value self (arrays h ! snd kv) = Inr r"
    using assms(6) crop by blast
  have part1: "\<exists>h'. CropData_call self h input_item label_item weight_item =
                 Inr ((length (dicts h), Suc (length (dicts h)), weight_item), h') \<and>
            old_objects_kept h h' \<and>
            (if ''input'' \<in> set (CropData.apply_keys self)
             then replaced_by (crop_value self) h h'
                    (dicts h ! input_item) (dicts h' ! length (dicts h))
             else dicts h' ! length (dicts h) = dicts h ! input_item) \<and>
            (if ''label'' \<in> set (CropData.apply_keys self)
             then replaced_by (crop_value self) h h'
                    (dicts h ! label_item) (dicts h' ! Suc (length (dicts h)))
             else dicts h' ! Suc (length (dicts h)) = dicts h ! label_item)"
    unfolding CropData_call_def
    by (rule on_apply_keys_items_replaces[OF assms(1,2,3) ok])
  have part3: "\<exists>r. crop_value self val = Inr r \<and> shape r = [C, 2, 3]"
    if "x0 = 0 \<and> y0 = 0 \<and> x1 = 2 \<and> y1 = 3 \<and> shape val = [C, 5, 5] \<and> wf_array val" for val C
    using crop_value_3d[OF assms(4,5), of val C 5 5] that by (simp add: slice_bound_def)
  show ?thesis
  proof (intro conjI allI impI)
    show "\<exists>h'. CropData_call self h input_item label_item weight_item =
                 Inr ((length (dicts h), Suc (length (dicts h)), weight_item), h') \<and>
            old_objects_kept h h' \<and>
            (if ''input'' \<in> set (CropData.apply_keys self)
             then replaced_by (crop_value self) h h'
                    (dicts h ! input_item) (dicts h' ! length (dicts h))
             else dicts h' ! length (dicts h) = dicts h ! input_item) \<and>
            (if ''label'' \<in> set (CropData.apply_keys self)
             then replaced_by (crop_value self) h h'
                    (dicts h ! label_item) (dicts h' ! Suc (length (dicts h)))
             else dicts h' ! Suc (length (dicts h)) = dicts h ! label_item)"
      by (rule part1)
  next
    fix val assume "ndim val = 3 \<and> wf_array val"
    then show "\<exists>r. crop_value self val = Inr r \<and> sliced_3d x0 x1 y0 y1 val r"
      using crop by blast
  next
    fix val C
    assume "x0 = 0 \<and> y0 = 0 \<and> x1 = 2 \<and> y1 = 3 \<and> shape val = [C, 5, 5] \<and> wf_array val"
    then show "\<exists>r. crop_value self val = Inr r \<and> shape r = [C, 2, 3]"
      by (rule part3)
  qed
qed

theorem CropData_call_slices_witness:
  "CropData_call \<lparr>xmin = [0, 0], xmax = [2, 3], apply_keys = [''input'', ''label'']\<rparr>
     \<lparr>dicts = [[(''u'', 0)], []],
      arrays = [NdArray [1, 5, 5]
        [0, 1, 2, 3, 4, 5, 6, 7, 8, 9, 10, 11, 12, 13, 14, 15, 16, 17, 18, 19, 20, 21, 22, 23, 24]]\<rparr>
     0 1 None =
   Inr ((2, 3, None),
     \<lparr>dicts = [[(''u'', 0)], [], [(''u'', 1)], []],
      arrays = [NdArray [1, 5, 5]
        [0, 1, 2, 3, 4, 5, 6, 7, 8, 9, 10, 11, 12, 13, 14, 15, 16, 17, 18, 19, 20, 21, 22, 23, 24],
        NdArray [1, 2, 3] [0, 1, 2, 5, 6, 7]]\<rparr>)"
proof -
  let ?self = "\<lparr>xmin = [0, 0], xmax = [2, 3], apply_keys = [''input'', ''label'']\<rparr>"
  let ?a = "NdArray [1, 5, 5]
        [0, 1, 2, 3, 4, 5, 6, 7, 8, 9, 10, 11, 12, 13, 14, 15, 16, 17, 18, 19, 20, 21, 22, 23, 24]"
  let ?h = "\<lparr>dicts = [[(''u'', 0)], []], arrays = [?a]\<rparr>"
  have wf: "wf_heap ?h" by (simp add: wf_heap_def)
  have sel: "\<forall>kv \<in> set (selected_items (CropData.apply_keys ?self) ?h 0 1).
           ndim (arrays ?h ! snd kv) = 3 \<and> wf_array (arrays ?h ! snd kv)"
    by (simp add: selected_items_def ndim_def wf_array_def)
  have cv: "crop_value ?self ?a = Inr (NdArray [1, 2, 3] [0, 1, 2, 5, 6, 7])"
    by (simp add: crop_value_def slice_bound_def upt_rec)
  from CropData_call_slices[OF wf _ _ _ _ sel, of 0 0 2 3 None]
  obtain h' where call: "CropData_call ?self ?h 0 1 None = Inr ((2, 3, None), h')"
    and rep: "replaced_by (crop_value ?self) ?h h' [(''u'', 0)] (dicts h' ! 2)"
    by (auto simp: numeral_2_eq_2 numeral_3_eq_3)
  have ev: "CropData_call ?self ?h 0 1 None =
     Inr ((2, 3, None),
       \<lparr>dicts = [[(''u'', 0)], [], [(''u'', 1)], []], arrays = [?a, NdArray [1, 2, 3] [0, 1, 2, 5, 6, 7]]\<rparr>)"
    by (simp add: CropData_call_def on_apply_keys_def dict_copy_def new_array_def
        dict_setitem_def cv del: One_nat_def)
  from call rep ev show ?thesis by simp
qed

section \<open>SqueezeData: the rank test\<close>

lemma find_first:
  "(\<And>p. p \<in> set pre \<Longrightarrow> \<not> P p) \<Longrightarrow> P x \<Longrightarrow> find P (pre @ x # post) = Some x"
  by (induction pre) auto

lemma find_exists:
  "x \<in> set xs \<Longrightarrow> P x \<Longrightarrow> \<exists>y. find P xs = Some y \<and> P y \<and> y \<in> set xs"
  by (induction xs) auto

text \<open>
  C4 states that SqueezeData fails, with an error identifying the offending rank, for
  every tensor of a mapping named in apply_keys whose rank is neither 3 nor 4, and that
  it returns tensors of rank 3 as they are. With \<open>sel\<close> the items of the named mappings
  in the order the loops visit them (inputs, then labels), the call does this:
  when every tensor of \<open>sel\<close> has rank 3 it returns copies of the two dictionaries with
  the items they had and changes no object; otherwise it raises at the first tensor of
  \<open>sel\<close> whose rank is not 3, with the rank of that tensor. That tensor may have rank 4,
  since the rank test reads the array taken from the dictionary and not the reshaped one.
  So when a tensor of rank 4 comes first and a tensor \<open>bad\<close> of rank neither 3 nor 4
  comes after it, the call raises the ValueError for rank 4: the error does not carry
  the rank of \<open>bad\<close>, the tensor that C4 calls offending.
\<close>

theorem SqueezeData_error_rank:
  assumes "wf_heap h" "input_item < length (dicts h)" "label_item < length (dicts h)"
  shows "((\<forall>kv \<in> set (selected_items (SqueezeData.apply_keys self) h input_item label_item).
             ndim (arrays h ! snd kv) = 3) \<longrightarrow>
          SqueezeData_call self h input_item label_item weight_item =
            Inr ((length (dicts h), Suc (length (dicts h)), weight_item),
                 h\<lparr>dicts := dicts h @ [dicts h ! input_item, dicts h ! label_item]\<rparr>)) \<and>
         (\<forall>pre kv post.
            selected_items (SqueezeData.apply_keys self) h input_item label_item = pre @ kv # post \<and>
            (\<forall>p \<in> set pre. ndim (arrays h ! snd p) = 3) \<and> ndim (arrays h ! snd kv) \<noteq> 3 \<longrightarrow>
            SqueezeData_call self h input_item label_item weight_item =
              Inl (ValueError_ndim (ndim (arrays h ! snd kv)))) \<and>
         (\<forall>pre kv post bad.
            selected_items (SqueezeData.apply_keys self) h input_item label_item = pre @ kv # post \<and>
            (\<forall>p \<in> set pre. ndim (arrays h ! snd p) = 3) \<and> ndim (arrays h ! snd kv) = 4 \<and>
            bad \<in> set post \<and> ndim (arrays h ! snd bad) \<noteq> 3 \<and> ndim (arrays h ! snd bad) \<noteq> 4 \<longrightarrow>
            SqueezeData_call self h input_item label_item weight_item = Inl (ValueError_ndim 4) \<and>
            SqueezeData_call self h input_item label_item weight_item \<noteq>
              Inl (ValueError_ndim (ndim (arrays h ! snd bad))))"
proof -
  let ?sel = "selected_items (SqueezeData.apply_keys self) h input_item label_item"
  let ?P = "\<lambda>kv. ndim (arrays h ! snd kv) \<noteq> 3"
  note eq = on_apply_keys_squeeze_eq[OF assms, of "SqueezeData.apply_keys self" weight_item]
  have a: "SqueezeData_call self h input_item label_item weight_item =
            Inr ((length (dicts h), Suc (length (dicts h)), weight_item),
                 h\<lparr>dicts := dicts h @ [dicts h ! input_item, dicts h ! label_item]\<rparr>)"
    if "\<forall>kv \<in> set ?sel. ndim (arrays h ! snd kv) = 3"
  proof -
    have "find ?P ?sel = None" using that by (auto simp: find_None_iff)
    then show ?thesis by (simp add: SqueezeData_call_def eq)
  qed
  have b: "SqueezeData_call self h input_item label_item weight_item =
              Inl (ValueError_ndim (ndim (arrays h ! snd kv)))"
    if "?sel = pre @ kv # post \<and> (\<forall>p \<in> set pre. ndim (arrays h ! snd p) = 3) \<and>
        ndim (arrays h ! snd kv) \<noteq> 3" for pre kv post
  proof -
    have "find ?P (pre @ kv # post) = Some kv" by (rule find_first) (use that in auto)
    then show ?thesis using that by (simp add: SqueezeData_call_def eq)
  qed
  have c: "SqueezeData_call self h input_item label_item weight_item = Inl (ValueError_ndim 4) \<and>
           SqueezeData_call self h input_item label_item weight_item \<noteq>
             Inl (ValueError_ndim (ndim (arrays h ! snd bad)))"
    if "?sel = pre @ kv # post \<and> (\<forall>p \<in> set pre. ndim (arrays h ! snd p) = 3) \<and>
        ndim (arrays h ! snd kv) = 4 \<and> bad \<in> set post \<and>
        ndim (arrays h ! snd bad) \<noteq> 3 \<and> ndim (arrays h ! snd bad) \<noteq> 4" for pre kv post bad
  proof -
    from that have "?sel = pre @ kv # post \<and> (\<forall>p \<in> set pre. ndim (arrays h ! snd p) = 3) \<and>
        ndim (arrays h ! snd kv) \<noteq> 3" by simp
    from b[OF this] that show ?thesis by simp
  qed
  show ?thesis using a b c by blast
qed

theorem SqueezeData_error_rank_witness:
  "SqueezeData_call \<lparr>apply_keys = [''input'']\<rparr>
     \<lparr>dicts = [[(''x'', 0)], []], arrays = [NdArray [2, 3] [1, 2, 3, 4, 5, 6]]\<rparr> 0 1 None =
     Inl (ValueError_ndim 2) \<and>
   SqueezeData_call \<lparr>apply_keys = [''input'', ''label'']\<rparr>
     \<lparr>dicts = [[(''x'', 0)], [(''y'', 1)]],
      arrays = [NdArray [1, 1, 2] [1, 2], NdArray [1, 1, 1, 1, 1] [7]]\<rparr> 0 1 None =
     Inl (ValueError_ndim 5) \<and>
   SqueezeData_call \<lparr>apply_keys = [''input'', ''label'']\<rparr>
     \<lparr>dicts = [[(''x'', 0)], [(''y'', 0)]], arrays = [NdArray [1, 1, 2] [1, 2]]\<rparr> 0 1 None =
     Inr ((2, 3, None),
          \<lparr>dicts = [[(''x'', 0)], [(''y'', 0)], [(''x'', 0)], [(''y'', 0)]],
           arrays = [NdArray [1, 1, 2] [1, 2]]\<rparr>) \<and>
   SqueezeData_call \<lparr>apply_keys = [''input'']\<rparr>
     \<lparr>dicts = [[(''a'', 0), (''b'', 1)], []],
      arrays = [NdArray [1, 1, 1, 1] [7], NdArray [2, 3] [1, 2, 3, 4, 5, 6]]\<rparr> 0 1 None =
     Inl (ValueError_ndim 4)"
proof -
  let ?h1 = "\<lparr>dicts = [[(''x'', 0)], []], arrays = [NdArray [2, 3] [1, 2, 3, 4, 5, 6]]\<rparr>"
  let ?h2 = "\<lparr>dicts = [[(''x'', 0)], [(''y'', 1)]],
      arrays = [NdArray [1, 1, 2] [1, 2], NdArray [1, 1, 1, 1, 1] [7]]\<rparr>"
  let ?h3 = "\<lparr>dicts = [[(''x'', 0)], [(''y'', 0)]], arrays = [NdArray [1, 1, 2] [1, 2]]\<rparr>"
  let ?h4 = "\<lparr>dicts = [[(''a'', 0), (''b'', 1)], []],
      arrays = [NdArray [1, 1, 1, 1] [7], NdArray [2, 3] [1, 2, 3, 4, 5, 6]]\<rparr>"
  have wf1: "wf_heap ?h1" and wf2: "wf_heap ?h2" and wf3: "wf_heap ?h3" and wf4: "wf_heap ?h4"
    by (simp_all add: wf_heap_def)
  have 1: "SqueezeData_call \<lparr>apply_keys = [''input'']\<rparr> ?h1 0 1 None = Inl (ValueError_ndim 2)"
    using SqueezeData_error_rank[OF wf1, of 0 1 "\<lparr>apply_keys = [''input'']\<rparr>" None,
        THEN conjunct2, THEN conjunct1, rule_format, of "[]" "(''x'', 0)" "[]"]
    by (simp add: selected_items_def ndim_def)
  have 2: "SqueezeData_call \<lparr>apply_keys = [''input'', ''label'']\<rparr> ?h2 0 1 None =
      Inl (ValueError_ndim 5)"
    using SqueezeData_error_rank[OF wf2, of 0 1 "\<lparr>apply_keys = [''input'', ''label'']\<rparr>" None,
        THEN conjunct2, THEN conjunct1, rule_format, of "[(''x'', 0)]" "(''y'', 1)" "[]"]
    by (simp add: selected_items_def ndim_def)
  have 3: "SqueezeData_call \<lparr>apply_keys = [''input'', ''label'']\<rparr> ?h3 0 1 None =
     Inr ((2, 3, None),
          \<lparr>dicts = [[(''x'', 0)], [(''y'', 0)], [(''x'', 0)], [(''y'', 0)]],
           arrays = [NdArray [1, 1, 2] [1, 2]]\<rparr>)"
    using SqueezeData_error_rank[OF wf3, of 0 1 "\<lparr>apply_keys = [''input'', ''label'']\<rparr>" None]
    by (simp add: selected_items_def ndim_def)
  have 4: "SqueezeData_call \<lparr>apply_keys = [''input'']\<rparr> ?h4 0 1 None = Inl (ValueError_ndim 4)"
    using SqueezeData_error_rank[OF wf4, of 0 1 "\<lparr>apply_keys = [''input'']\<rparr>" None,
        THEN conjunct2, THEN conjunct2, rule_format,
        of "[]" "(''a'', 0)" "[(''b'', 1)]" "(''b'', 1)"]
    by (simp add: selected_items_def ndim_def)
  from 1 2 3 4 show ?thesis by simp
qed

text \<open>
  C2 states that SqueezeData accepts a tensor of rank 4 and returns it reshaped to
  \<open>[B * C, H, W]\<close>. The loop stores the reshaped array under the key and then tests the
  rank of the array it took from the dictionary, which is still 4: when the tensors of
  the named mappings have ranks 3 and 4 only, and one of them has rank 4, the call
  raises the ValueError for rank 4.
\<close>

theorem SqueezeData_rank4_raises:
  assumes "wf_heap h" "input_item < length (dicts h)" "label_item < length (dicts h)"
    and "\<forall>kv \<in> set (selected_items (SqueezeData.apply_keys self) h input_item label_item).
           ndim (arrays h ! snd kv) = 3 \<or> ndim (arrays h ! snd kv) = 4"
    and "\<exists>kv \<in> set (selected_items (SqueezeData.apply_keys self) h input_item label_item).
           ndim (arrays h ! snd kv) = 4"
  shows "SqueezeData_call self h input_item label_item weight_item = Inl (ValueError_ndim 4)"
proof -
  let ?sel = "selected_items (SqueezeData.apply_keys self) h input_item label_item"
  let ?P = "\<lambda>kv. ndim (arrays h ! snd kv) \<noteq> 3"
  from assms(5) obtain kv where kv: "kv \<in> set ?sel" "ndim (arrays h ! snd kv) = 4" by blast
  from find_exists[of kv ?sel ?P] kv
  obtain x where x: "find ?P ?sel = Some x" and "?P x" "x \<in> set ?sel" by auto
  then have "ndim (arrays h ! snd x) = 4" using assms(4) by blast
  then show ?thesis
    using x by (simp add: SqueezeData_call_def on_apply_keys_squeeze_eq[OF assms(1,2,3)])
qed

theorem SqueezeData_rank4_raises_witness:
  "SqueezeData_call \<lparr>apply_keys = [''input'', ''label'']\<rparr>
     \<lparr>dicts = [[(''x'', 0)], []], arrays = [NdArray [2, 3, 4, 5] (replicate 120 0)]\<rparr> 0 1 None =
   Inl (ValueError_ndim 4)"
proof -
  let ?h = "\<lparr>dicts = [[(''x'', 0)], []], arrays = [NdArray [2, 3, 4, 5] (replicate 120 0)]\<rparr>"
  have wf: "wf_heap ?h" by (simp add: wf_heap_def)
  show ?thesis
    by (rule SqueezeData_rank4_raises[OF wf]) (simp_all add: selected_items_def ndim_def)
qed

section \<open>Keys of the returned mappings\<close>

lemma old_objects_kept_dict:
  "old_objects_kept h h' \<Longrightarrow> d < length (dicts h) \<Longrightarrow> dicts h' ! d = dicts h ! d"
  unfolding old_objects_kept_def by (metis nth_take)

lemma old_objects_kept_array:
  "old_objects_kept h h' \<Longrightarrow> a < length (arrays h) \<Longrightarrow> arrays h' ! a = arrays h ! a"
  unfolding old_objects_kept_def by (metis nth_take)

lemma same_keys_on_apply_keys:
  assumes "l < length (dicts h)" "case w of None \<Rightarrow> True | Some a \<Rightarrow> a < length (dicts h)"
    and "res = (length (dicts h), Suc (length (dicts h)), w) \<and>
     old_objects_kept h h' \<and>
     map fst (dicts h' ! length (dicts h)) = map fst (dicts h ! i) \<and>
     map fst (dicts h' ! Suc (length (dicts h))) = map fst (dicts h ! l)"
  shows "same_keys h (i, l, w) h' res"
  using assms old_objects_kept_dict[of h h']
  by (auto simp: same_keys_def split: option.splits)

text \<open>
  C9: when a call of one of the six built-in transforms returns, each mapping it returns
  has the keys of the mapping it was given in that place, in the same order; the
  weights are returned as given (absent when they were absent).
\<close>

theorem key_sets_preserved:
  assumes "wf_heap h" "input_item < length (dicts h)" "label_item < length (dicts h)"
    and "case weight_item of None \<Rightarrow> True | Some a \<Rightarrow> a < length (dicts h)"
  shows "(Translate_call tr h input_item label_item weight_item = Inr (res, h') \<longrightarrow>
            same_keys h (input_item, label_item, weight_item) h' res) \<and>
         (Scale_call sc h input_item label_item weight_item = Inr (res, h') \<longrightarrow>
            same_keys h (input_item, label_item, weight_item) h' res) \<and>
         (Normalize_call nm h input_item label_item weight_item = Inr (res, h') \<longrightarrow>
            same_keys h (input_item, label_item, weight_item) h' res) \<and>
         (Log1p_call lp h input_item label_item weight_item = Inr (res, h') \<longrightarrow>
            same_keys h (input_item, label_item, weight_item) h' res) \<and>
         (CropData_call cr h input_item label_item weight_item = Inr (res, h') \<longrightarrow>
            same_keys h (input_item, label_item, weight_item) h' res) \<and>
         (SqueezeData_call sq h input_item label_item weight_item = Inr (res, h') \<longrightarrow>
            same_keys h (input_item, label_item, weight_item) h' res)"
proof (intro conjI impI)
  assume "Translate_call tr h input_item label_item weight_item = Inr (res, h')"
  then show "same_keys h (input_item, label_item, weight_item) h' res"
    using assms(2,3,4) unfolding Translate_call_eq[OF assms(2)]
    by (auto simp: same_keys_def nth_append split: option.splits)
next
  assume "Scale_call sc h input_item label_item weight_item = Inr (res, h')"
  then show "same_keys h (input_item, label_item, weight_item) h' res"
    using assms(2,3,4) unfolding Scale_call_eq[OF assms(2)]
    by (auto simp: same_keys_def nth_append split: option.splits)
next
  assume "Normalize_call nm h input_item label_item weight_item = Inr (res, h')"
  then show "same_keys h (input_item, label_item, weight_item) h' res"
    unfolding Normalize_call_def
    by (intro same_keys_on_apply_keys[OF assms(3,4)] on_apply_keys_items_Inr[OF assms(1,2,3)])
next
  assume "Log1p_call lp h input_item label_item weight_item = Inr (res, h')"
  then show "same_keys h (input_item, label_item, weight_item) h' res"
    unfolding Log1p_call_def
    by (intro same_keys_on_apply_keys[OF assms(3,4)] on_apply_keys_items_Inr[OF assms(1,2,3)])
next
  assume "CropData_call cr h input_item label_item weight_item = Inr (res, h')"
  then show "same_keys h (input_item, label_item, weight_item) h' res"
    unfolding CropData_call_def
    by (intro same_keys_on_apply_keys[OF assms(3,4)] on_apply_keys_items_Inr[OF assms(1,2,3)])
next
  assume "SqueezeData_call sq h input_item label_item weight_item = Inr (res, h')"
  then show "same_keys h (input_item, label_item, weight_item) h' res"
    unfolding SqueezeData_call_def
    by (intro same_keys_on_apply_keys[OF assms(3,4)] on_apply_keys_squeeze_Inr[OF assms(1,2,3)])
qed

theorem key_sets_preserved_witness:
  "same_keys \<lparr>dicts = [[(''x'', 0)], [(''y'', 0)], []], arrays = [NdArray [1, 1, 2] [1, 2]]\<rparr>
     (0, 1, Some 2)
     \<lparr>dicts = [[(''x'', 0)], [(''y'', 0)], [], [(''x'', 0)]], arrays = [NdArray [1, 1, 2] [3, 4]]\<rparr>
     (3, 1, Some 2) \<and>
   same_keys \<lparr>dicts = [[(''x'', 0)], [(''y'', 0)], []], arrays = [NdArray [1, 1, 2] [1, 2]]\<rparr>
     (0, 1, Some 2)
     \<lparr>dicts = [[(''x'', 0)], [(''y'', 0)], [], [(''x'', 0)]], arrays = [NdArray [1, 1, 2] [3, 6]]\<rparr>
     (3, 1, Some 2) \<and>
   same_keys \<lparr>dicts = [[(''x'', 0)], [(''y'', 0)], []], arrays = [NdArray [1, 1, 2] [1, 2]]\<rparr>
     (0, 1, Some 2)
     \<lparr>dicts = [[(''x'', 0)], [(''y'', 0)], [], [(''x'', 1)], [(''y'', 2)]],
      arrays = [NdArray [1, 1, 2] [1, 2], NdArray [1, 1, 2] [1 / 2, 1], NdArray [1, 1, 2] [1 / 2, 1]]\<rparr>
     (3, 4, Some 2) \<and>
   same_keys \<lparr>dicts = [[(''x'', 0)], [(''y'', 0)], []], arrays = [NdArray [1, 1, 2] [1, 2]]\<rparr>
     (0, 1, Some 2)
     \<lparr>dicts = [[(''x'', 0)], [(''y'', 0)], [], [(''x'', 0)], [(''y'', 1)]],
      arrays = [NdArray [1, 1, 2] [1, 2], NdArray [1, 1, 2] [ln 2, ln 3]]\<rparr>
     (3, 4, Some 2) \<and>
   same_keys \<lparr>dicts = [[(''x'', 0)], [(''y'', 0)], []], arrays = [NdArray [1, 1, 2] [1, 2]]\<rparr>
     (0, 1, Some 2)
     \<lparr>dicts = [[(''x'', 0)], [(''y'', 0)], [], [(''x'', 1)], [(''y'', 0)]],
      arrays = [NdArray [1, 1, 2] [1, 2], NdArray [1, 1, 1] [2]]\<rparr>
     (3, 4, Some 2) \<and>
   same_keys \<lparr>dicts = [[(''x'', 0)], [(''y'', 0)], []], arrays = [NdArray [1, 1, 2] [1, 2]]\<rparr>
     (0, 1, Some 2)
     \<lparr>dicts = [[(''x'', 0)], [(''y'', 0)], [], [(''x'', 0)], [(''y'', 0)]],
      arrays = [NdArray [1, 1, 2] [1, 2]]\<rparr>
     (3, 4, Some 2)"
proof -
  let ?h = "\<lparr>dicts = [[(''x'', 0)], [(''y'', 0)], []], arrays = [NdArray [1, 1, 2] [1, 2]]\<rparr>"
  have wf: "wf_heap ?h" by (simp add: wf_heap_def)
  have i: "0 < length (dicts ?h)" and l: "1 < length (dicts ?h)" by simp_all
  have w: "case Some 2 of None \<Rightarrow> True | Some a \<Rightarrow> a < length (dicts ?h)" by simp
  note ksp = key_sets_preserved[OF wf i l w]
  have tr: "Translate_call \<lparr>offset = [(''x'', 2), (''z'', 5)]\<rparr> ?h 0 1 (Some 2) =
      Inr ((3, 1, Some 2),
        \<lparr>dicts = [[(''x'', 0)], [(''y'', 0)], [], [(''x'', 0)]], arrays = [NdArray [1, 1, 2] [3, 4]]\<rparr>)"
    by (simp add: Translate_call_def dict_copy_def dict_setitem_def nd_inplace_def del: One_nat_def)
  have sc: "Scale_call \<lparr>Scale.scale = [(''x'', 3)]\<rparr> ?h 0 1 (Some 2) =
      Inr ((3, 1, Some 2),
        \<lparr>dicts = [[(''x'', 0)], [(''y'', 0)], [], [(''x'', 0)]], arrays = [NdArray [1, 1, 2] [3, 6]]\<rparr>)"
    by (simp add: Scale_call_def dict_copy_def dict_setitem_def nd_inplace_def del: One_nat_def)
  have nv: "normalize_value \<lparr>mean = NdArray [] [0], std = NdArray [] [2], apply_keys = [''label'', ''input'']\<rparr>
      (NdArray [1, 1, 2] [1, 2]) = Inr (NdArray [1, 1, 2] [1 / 2, 1])"
    by (simp add: normalize_value_scalar wf_array_def)
  have nm: "Normalize_call \<lparr>mean = NdArray [] [0], std = NdArray [] [2], apply_keys = [''label'', ''input'']\<rparr>
      ?h 0 1 (Some 2) =
      Inr ((3, 4, Some 2),
        \<lparr>dicts = [[(''x'', 0)], [(''y'', 0)], [], [(''x'', 1)], [(''y'', 2)]],
         arrays = [NdArray [1, 1, 2] [1, 2], NdArray [1, 1, 2] [1 / 2, 1], NdArray [1, 1, 2] [1 / 2, 1]]\<rparr>)"
    by (simp add: Normalize_call_def on_apply_keys_def dict_copy_def new_array_def
        dict_setitem_def nv del: One_nat_def)
  have lp: "Log1p_call \<lparr>scale = 1, apply_keys = [''label'']\<rparr> ?h 0 1 (Some 2) =
      Inr ((3, 4, Some 2),
        \<lparr>dicts = [[(''x'', 0)], [(''y'', 0)], [], [(''x'', 0)], [(''y'', 1)]],
         arrays = [NdArray [1, 1, 2] [1, 2], NdArray [1, 1, 2] [ln 2, ln 3]]\<rparr>)"
    by (simp add: Log1p_call_def on_apply_keys_def dict_copy_def new_array_def
        dict_setitem_def log1p_value_def del: One_nat_def)
  have cv: "crop_value \<lparr>xmin = [0, 1], xmax = [1, 2], apply_keys = [''input'']\<rparr>
      (NdArray [1, 1, 2] [1, 2]) = Inr (NdArray [1, 1, 1] [2])"
    by (simp add: crop_value_def slice_bound_def upt_rec)
  have cr: "CropData_call \<lparr>xmin = [0, 1], xmax = [1, 2], apply_keys = [''input'']\<rparr> ?h 0 1 (Some 2) =
      Inr ((3, 4, Some 2),
        \<lparr>dicts = [[(''x'', 0)], [(''y'', 0)], [], [(''x'', 1)], [(''y'', 0)]],
         arrays = [NdArray [1, 1, 2] [1, 2], NdArray [1, 1, 1] [2]]\<rparr>)"
    by (simp add: CropData_call_def on_apply_keys_def dict_copy_def new_array_def
        dict_setitem_def cv del: One_nat_def)
  have sq: "SqueezeData_call \<lparr>apply_keys = [''input'', ''label'']\<rparr> ?h 0 1 (Some 2) =
      Inr ((3, 4, Some 2),
        \<lparr>dicts = [[(''x'', 0)], [(''y'', 0)], [], [(''x'', 0)], [(''y'', 0)]],
         arrays = [NdArray [1, 1, 2] [1, 2]]\<rparr>)"
    by (simp add: SqueezeData_call_def on_apply_keys_def dict_copy_def ndim_def del: One_nat_def)
  from ksp[THEN conjunct1, rule_format, OF tr]
    ksp[THEN conjunct2, THEN conjunct1, rule_format, OF sc]
    ksp[THEN conjunct2, THEN conjunct2, THEN conjunct1, rule_format, OF nm]
    ksp[THEN conjunct2, THEN conjunct2, THEN conjunct2, THEN conjunct1, rule_format, OF lp]
    ksp[THEN conjunct2, THEN conjunct2, THEN conjunct2, THEN conjunct2, THEN conjunct1,
      rule_format, OF cr]
    ksp[THEN conjunct2, THEN conjunct2, THEN conjunct2, THEN conjunct2, THEN conjunct2, rule_format, OF sq]
  show ?thesis by simp
qed

section \<open>FunctionalTransform: the copies handed to the user's function\<close>

text \<open>
  C8: FunctionalTransform hands the user's function three new dictionary objects: the
  first two with the items of the data and label dictionaries, the third with the items
  of the weight dictionary, or empty when the weights are absent. The new objects lie
  beyond every object of the store before the call, so they are distinct from one
  another and from the caller's; no array is copied and no existing object is changed.
  The call's result is the result of the user's function on these arguments.
\<close>

theorem FunctionalTransform_passes_copies:
  assumes "data_dict < length (dicts h)" "label_dict < length (dicts h)"
    and "case weight_dict of None \<Rightarrow> True | Some w \<Rightarrow> w < length (dicts h)"
  shows "\<exists>h'. FunctionalTransform_call self h data_dict label_dict weight_dict =
            transform_func self (length (dicts h)) (Suc (length (dicts h)))
              (Suc (Suc (length (dicts h)))) h' \<and>
          old_objects_kept h h' \<and> arrays h' = arrays h \<and>
          length (dicts h') = length (dicts h) + 3 \<and>
          dicts h' ! length (dicts h) = dicts h ! data_dict \<and>
          dicts h' ! Suc (length (dicts h)) = dicts h ! label_dict \<and>
          dicts h' ! Suc (Suc (length (dicts h))) =
            (case weight_dict of None \<Rightarrow> [] | Some w \<Rightarrow> dicts h ! w)"
proof (cases weight_dict)
  case None
  show ?thesis
    by (rule exI[of _ "h\<lparr>dicts := dicts h @ [dicts h ! data_dict, dicts h ! label_dict, []]\<rparr>"])
       (use assms None in \<open>simp add: FunctionalTransform_call_def dict_copy_def dict_new_def
          old_objects_kept_def nth_append\<close>)
next
  case (Some w)
  show ?thesis
    by (rule exI[of _ "h\<lparr>dicts := dicts h @ [dicts h ! data_dict, dicts h ! label_dict, dicts h ! w]\<rparr>"])
       (use assms Some in \<open>simp add: FunctionalTransform_call_def dict_copy_def dict_new_def
          old_objects_kept_def nth_append\<close>)
qed

theorem FunctionalTransform_passes_copies_witness:
  "FunctionalTransform_call \<lparr>transform_func = (\<lambda>d l w h. (d, l, w, h))\<rparr>
     \<lparr>dicts = [[(''x'', 0)], [(''y'', 0)]], arrays = [NdArray [2] [1, 2]]\<rparr> 0 1 None =
   (2, 3, 4, \<lparr>dicts = [[(''x'', 0)], [(''y'', 0)], [(''x'', 0)], [(''y'', 0)], []],
              arrays = [NdArray [2] [1, 2]]\<rparr>) \<and>
   FunctionalTransform_call \<lparr>transform_func = (\<lambda>d l w h. (d, l, w, h))\<rparr>
     \<lparr>dicts = [[(''x'', 0)], [(''y'', 0)]], arrays = [NdArray [2] [1, 2]]\<rparr> 0 1 (Some 1) =
   (2, 3, 4, \<lparr>dicts = [[(''x'', 0)], [(''y'', 0)], [(''x'', 0)], [(''y'', 0)], [(''y'', 0)]],
              arrays = [NdArray [2] [1, 2]]\<rparr>)"
proof -
  let ?h = "\<lparr>dicts = [[(''x'', 0)], [(''y'', 0)]], arrays = [NdArray [2] [1, 2]]\<rparr>"
  let ?self = "\<lparr>transform_func = (\<lambda>d l w h. (d, l, w, h))\<rparr>"
  have d: "0 < length (dicts ?h)" and l: "1 < length (dicts ?h)" by simp_all
  have w1: "case None of None \<Rightarrow> True | Some w \<Rightarrow> w < length (dicts ?h)" by simp
  have w2: "case Some 1 of None \<Rightarrow> True | Some w \<Rightarrow> w < length (dicts ?h)" by simp
  have ev1: "FunctionalTransform_call ?self ?h 0 1 None =
     (2, 3, 4, \<lparr>dicts = [[(''x'', 0)], [(''y'', 0)], [(''x'', 0)], [(''y'', 0)], []],
              arrays = [NdArray [2] [1, 2]]\<rparr>)"
    by (simp add: FunctionalTransform_call_def dict_copy_def dict_new_def)
  have ev2: "FunctionalTransform_call ?self ?h 0 1 (Some 1) =
     (2, 3, 4, \<lparr>dicts = [[(''x'', 0)], [(''y'', 0)], [(''x'', 0)], [(''y'', 0)], [(''y'', 0)]],
              arrays = [NdArray [2] [1, 2]]\<rparr>)"
    by (simp add: FunctionalTransform_call_def dict_copy_def dict_new_def)
  from FunctionalTransform_passes_copies[OF d l w1, of ?self]
    FunctionalTransform_passes_copies[OF d l w2, of ?self] ev1 ev2
  show ?thesis by simp
qed

section \<open>Translate and Scale write the caller's arrays\<close>

lemma Translate_call_in_place:
  assumes "input_dict < length (dicts h)" "distinct (map fst cfg)" "(key, c) \<in> set cfg"
    and "map_of (dicts h ! input_dict) key = Some a" "a < length (arrays h)"
    and "\<forall>kc \<in> set cfg. fst kc \<noteq> key \<longrightarrow> map_of (dicts h ! input_dict) (fst kc) \<noteq> Some a"
  shows "\<exists>h'. Translate_call \<lparr>offset = cfg\<rparr> h input_dict label_dict weight_dict =
                 Inr ((length (dicts h), label_dict, weight_dict), h') \<and>
              take (length (dicts h)) (dicts h') = dicts h \<and>
              arrays h' ! a = NdArray (shape (arrays h ! a)) (map (\<lambda>x. x + c) (elems (arrays h ! a)))"
proof -
  have other: "\<forall>(key', c') \<in> set cfg. key' \<noteq> key \<longrightarrow> map_of (dicts h ! input_dict) key' \<noteq> Some a"
    using assms(6) by auto
  show ?thesis
    unfolding Translate_call_eq[OF assms(1)]
    using inplace_all_once[OF assms(2,3,4) other assms(5), of "(+)"] by simp
qed

lemma Scale_call_in_place:
  assumes "input_dict < length (dicts h)" "distinct (map fst cfg)" "(key, c) \<in> set cfg"
    and "map_of (dicts h ! input_dict) key = Some a" "a < length (arrays h)"
    and "\<forall>kc \<in> set cfg. fst kc \<noteq> key \<longrightarrow> map_of (dicts h ! input_dict) (fst kc) \<noteq> Some a"
  shows "\<exists>h'. Scale_call \<lparr>Scale.scale = cfg\<rparr> h input_dict label_dict weight_dict =
                 Inr ((length (dicts h), label_dict, weight_dict), h') \<and>
              take (length (dicts h)) (dicts h') = dicts h \<and>
              arrays h' ! a = NdArray (shape (arrays h ! a)) (map (\<lambda>x. x * c) (elems (arrays h ! a)))"
proof -
  have other: "\<forall>(key', c') \<in> set cfg. key' \<noteq> key \<longrightarrow> map_of (dicts h ! input_dict) key' \<noteq> Some a"
    using assms(6) by auto
  show ?thesis
    unfolding Scale_call_eq[OF assms(1)]
    using inplace_all_once[OF assms(2,3,4) other assms(5), of "(*)"] by simp
qed

text \<open>
  C1 states that no call changes the content of the mappings it is given, the tensors
  they hold included. Translate and Scale copy the dictionary and then apply \<^verbatim>\<open>+=\<close>
  and \<^verbatim>\<open>*=\<close> to the array object that the copy shares with the caller's dictionary:
  after the call the caller's inputs dictionary is the same list of items, and the
  array it holds under a configured key has had its elements overwritten.
\<close>

theorem Translate_Scale_write_in_place:
  assumes "input_dict < length (dicts h)" "distinct (map fst cfg)" "(key, c) \<in> set cfg"
    and "map_of (dicts h ! input_dict) key = Some a" "a < length (arrays h)"
    and "\<forall>kc \<in> set cfg. fst kc \<noteq> key \<longrightarrow> map_of (dicts h ! input_dict) (fst kc) \<noteq> Some a"
  shows "(\<exists>h'. Translate_call \<lparr>offset = cfg\<rparr> h input_dict label_dict weight_dict =
                 Inr ((length (dicts h), label_dict, weight_dict), h') \<and>
              dicts h' ! input_dict = dicts h ! input_dict \<and>
              arrays h' ! a =
                NdArray (shape (arrays h ! a)) (map (\<lambda>x. x + c) (elems (arrays h ! a)))) \<and>
         (\<exists>h'. Scale_call \<lparr>Scale.scale = cfg\<rparr> h input_dict label_dict weight_dict =
                 Inr ((length (dicts h), label_dict, weight_dict), h') \<and>
              dicts h' ! input_dict = dicts h ! input_dict \<and>
              arrays h' ! a =
                NdArray (shape (arrays h ! a)) (map (\<lambda>x. x * c) (elems (arrays h ! a))))"
proof
  from Translate_call_in_place[OF assms, of label_dict weight_dict]
  obtain h' where "Translate_call \<lparr>offset = cfg\<rparr> h input_dict label_dict weight_dict =
                 Inr ((length (dicts h), label_dict, weight_dict), h')"
    and t: "take (length (dicts h)) (dicts h') = dicts h"
    and "arrays h' ! a = NdArray (shape (arrays h ! a)) (map (\<lambda>x. x + c) (elems (arrays h ! a)))"
    by blast
  moreover have "dicts h' ! input_dict = dicts h ! input_dict"
    using t assms(1) by (metis nth_take)
  ultimately show "\<exists>h'. Translate_call \<lparr>offset = cfg\<rparr> h input_dict label_dict weight_dict =
                 Inr ((length (dicts h), label_dict, weight_dict), h') \<and>
              dicts h' ! input_dict = dicts h ! input_dict \<and>
              arrays h' ! a =
                NdArray (shape (arrays h ! a)) (map (\<lambda>x. x + c) (elems (arrays h ! a)))"
    by blast
next
  from Scale_call_in_place[OF assms, of label_dict weight_dict]
  obtain h' where "Scale_call \<lparr>Scale.scale = cfg\<rparr> h input_dict label_dict weight_dict =
                 Inr ((length (dicts h), label_dict, weight_dict), h')"
    and t: "take (length (dicts h)) (dicts h') = dicts h"
    and "arrays h' ! a = NdArray (shape (arrays h ! a)) (map (\<lambda>x. x * c) (elems (arrays h ! a)))"
    by blast
  moreover have "dicts h' ! input_dict = dicts h ! input_dict"
    using t assms(1) by (metis nth_take)
  ultimately show "\<exists>h'. Scale_call \<lparr>Scale.scale = cfg\<rparr> h input_dict label_dict weight_dict =
                 Inr ((length (dicts h), label_dict, weight_dict), h') \<and>
              dicts h' ! input_dict = dicts h ! input_dict \<and>
              arrays h' ! a =
                NdArray (shape (arrays h ! a)) (map (\<lambda>x. x * c) (elems (arrays h ! a)))"
    by blast
qed

theorem Translate_Scale_write_in_place_witness:
  "Translate_call \<lparr>offset = [(''x'', 2)]\<rparr>
     \<lparr>dicts = [[(''x'', 0)], [], []], arrays = [NdArray [1] [1]]\<rparr> 0 1 (Some 2) =
   Inr ((3, 1, Some 2),
        \<lparr>dicts = [[(''x'', 0)], [], [], [(''x'', 0)]], arrays = [NdArray [1] [3]]\<rparr>) \<and>
   Scale_call \<lparr>Scale.scale = [(''x'', 2)]\<rparr>
     \<lparr>dicts = [[(''x'', 0)], [], []], arrays = [NdArray [1] [1]]\<rparr> 0 1 (Some 2) =
   Inr ((3, 1, Some 2),
        \<lparr>dicts = [[(''x'', 0)], [], [], [(''x'', 0)]], arrays = [NdArray [1] [2]]\<rparr>)"
proof -
  let ?h = "\<lparr>dicts = [[(''x'', 0)], [], []], arrays = [NdArray [1] [1]]\<rparr>"
  have i: "0 < length (dicts ?h)" by simp
  have d: "distinct (map fst [(''x'', 2 :: real)])" by simp
  have m: "(''x'', 2) \<in> set [(''x'', 2 :: real)]" by simp
  have p: "map_of (dicts ?h ! 0) ''x'' = Some 0" by simp
  have a: "0 < length (arrays ?h)" by simp
  have o: "\<forall>kc \<in> set [(''x'', 2 :: real)]. fst kc \<noteq> ''x'' \<longrightarrow>
      map_of (dicts ?h ! 0) (fst kc) \<noteq> Some 0" by simp
  note w = Translate_Scale_write_in_place[OF i d m p a o, of 1 "Some 2"]
  have tr: "Translate_call \<lparr>offset = [(''x'', 2)]\<rparr> ?h 0 1 (Some 2) =
     Inr ((3, 1, Some 2),
        \<lparr>dicts = [[(''x'', 0)], [], [], [(''x'', 0)]], arrays = [NdArray [1] [3]]\<rparr>)"
    by (simp add: Translate_call_def dict_copy_def dict_setitem_def nd_inplace_def del: One_nat_def)
  have sc: "Scale_call \<lparr>Scale.scale = [(''x'', 2)]\<rparr> ?h 0 1 (Some 2) =
     Inr ((3, 1, Some 2),
        \<lparr>dicts = [[(''x'', 0)], [], [], [(''x'', 0)]], arrays = [NdArray [1] [2]]\<rparr>)"
    by (simp add: Scale_call_def dict_copy_def dict_setitem_def nd_inplace_def del: One_nat_def)
  from w tr sc show ?thesis by simp
qed

text \<open>
  C5 states that Translate and Scale return the labels and weights with unchanged
  content, and that a configured key holds its tensor with the configured offset added
  (factor multiplied). The in-place write of C1 reaches every holder of the array
  object: when the labels dictionary holds, under some key, the array that the inputs
  hold under a configured key, the labels dictionary that the call returns holds that
  array with its elements overwritten.
\<close>

theorem Translate_Scale_change_shared_labels:
  assumes "input_dict < length (dicts h)" "distinct (map fst cfg)" "(key, c) \<in> set cfg"
    and "map_of (dicts h ! input_dict) key = Some a" "a < length (arrays h)"
    and "\<forall>kc \<in> set cfg. fst kc \<noteq> key \<longrightarrow> map_of (dicts h ! input_dict) (fst kc) \<noteq> Some a"
    and "label_dict < length (dicts h)" "(lkey, a) \<in> set (dicts h ! label_dict)"
  shows "(\<exists>i' h'. Translate_call \<lparr>offset = cfg\<rparr> h input_dict label_dict weight_dict =
                 Inr ((i', label_dict, weight_dict), h') \<and>
              (lkey, a) \<in> set (dicts h' ! label_dict) \<and>
              arrays h' ! a =
                NdArray (shape (arrays h ! a)) (map (\<lambda>x. x + c) (elems (arrays h ! a)))) \<and>
         (\<exists>i' h'. Scale_call \<lparr>Scale.scale = cfg\<rparr> h input_dict label_dict weight_dict =
                 Inr ((i', label_dict, weight_dict), h') \<and>
              (lkey, a) \<in> set (dicts h' ! label_dict) \<and>
              arrays h' ! a =
                NdArray (shape (arrays h ! a)) (map (\<lambda>x. x * c) (elems (arrays h ! a))))"
proof
  from Translate_call_in_place[OF assms(1-6), of label_dict weight_dict]
  obtain h' where "Translate_call \<lparr>offset = cfg\<rparr> h input_dict label_dict weight_dict =
                 Inr ((length (dicts h), label_dict, weight_dict), h')"
    and t: "take (length (dicts h)) (dicts h') = dicts h"
    and "arrays h' ! a = NdArray (shape (arrays h ! a)) (map (\<lambda>x. x + c) (elems (arrays h ! a)))"
    by blast
  moreover have "dicts h' ! label_dict = dicts h ! label_dict"
    using t assms(7) by (metis nth_take)
  ultimately show "\<exists>i' h'. Translate_call \<lparr>offset = cfg\<rparr> h input_dict label_dict weight_dict =
                 Inr ((i', label_dict, weight_dict), h') \<and>
              (lkey, a) \<in> set (dicts h' ! label_dict) \<and>
              arrays h' ! a =
                NdArray (shape (arrays h ! a)) (map (\<lambda>x. x + c) (elems (arrays h ! a)))"
    using assms(8) by auto
next
  from Scale_call_in_place[OF assms(1-6), of label_dict weight_dict]
  obtain h' where "Scale_call \<lparr>Scale.scale = cfg\<rparr> h input_dict label_dict weight_dict =
                 Inr ((length (dicts h), label_dict, weight_dict), h')"
    and t: "take (length (dicts h)) (dicts h') = dicts h"
    and "arrays h' ! a = NdArray (shape (arrays h ! a)) (map (\<lambda>x. x * c) (elems (arrays h ! a)))"
    by blast
  moreover have "dicts h' ! label_dict = dicts h ! label_dict"
    using t assms(7) by (metis nth_take)
  ultimately show "\<exists>i' h'. Scale_call \<lparr>Scale.scale = cfg\<rparr> h input_dict label_dict weight_dict =
                 Inr ((i', label_dict, weight_dict), h') \<and>
              (lkey, a) \<in> set (dicts h' ! label_dict) \<and>
              arrays h' ! a =
                NdArray (shape (arrays h ! a)) (map (\<lambda>x. x * c) (elems (arrays h ! a)))"
    using assms(8) by auto
qed

theorem Translate_Scale_change_shared_labels_witness:
  "Translate_call \<lparr>offset = [(''x'', 2)]\<rparr>
     \<lparr>dicts = [[(''x'', 0)], [(''y'', 0)]], arrays = [NdArray [1] [1]]\<rparr> 0 1 None =
   Inr ((2, 1, None),
        \<lparr>dicts = [[(''x'', 0)], [(''y'', 0)], [(''x'', 0)]], arrays = [NdArray [1] [3]]\<rparr>) \<and>
   Scale_call \<lparr>Scale.scale = [(''x'', 2)]\<rparr>
     \<lparr>dicts = [[(''x'', 0)], [(''y'', 0)]], arrays = [NdArray [1] [1]]\<rparr> 0 1 None =
   Inr ((2, 1, None),
        \<lparr>dicts = [[(''x'', 0)], [(''y'', 0)], [(''x'', 0)]], arrays = [NdArray [1] [2]]\<rparr>) \<and>
   Translate_call \<lparr>offset = [(''x'', 1), (''y'', 2)]\<rparr>
     \<lparr>dicts = [[(''x'', 0), (''y'', 0)], []], arrays = [NdArray [1] [1]]\<rparr> 0 1 None =
   Inr ((2, 1, None),
        \<lparr>dicts = [[(''x'', 0), (''y'', 0)], [], [(''x'', 0), (''y'', 0)]],
         arrays = [NdArray [1] [4]]\<rparr>)"
proof -
  let ?h = "\<lparr>dicts = [[(''x'', 0)], [(''y'', 0)]], arrays = [NdArray [1] [1]]\<rparr>"
  have i: "0 < length (dicts ?h)" by simp
  have d: "distinct (map fst [(''x'', 2 :: real)])" by simp
  have m: "(''x'', 2) \<in> set [(''x'', 2 :: real)]" by simp
  have p: "map_of (dicts ?h ! 0) ''x'' = Some 0" by simp
  have a: "0 < length (arrays ?h)" by simp
  have o: "\<forall>kc \<in> set [(''x'', 2 :: real)]. fst kc \<noteq> ''x'' \<longrightarrow>
      map_of (dicts ?h ! 0) (fst kc) \<noteq> Some 0" by simp
  have l: "1 < length (dicts ?h)" by simp
  have s: "(''y'', 0) \<in> set (dicts ?h ! 1)" by simp
  note w = Translate_Scale_change_shared_labels[OF i d m p a o l s, of None]
  have tr: "Translate_call \<lparr>offset = [(''x'', 2)]\<rparr> ?h 0 1 None =
     Inr ((2, 1, None),
        \<lparr>dicts = [[(''x'', 0)], [(''y'', 0)], [(''x'', 0)]], arrays = [NdArray [1] [3]]\<rparr>)"
    by (simp add: Translate_call_def dict_copy_def dict_setitem_def nd_inplace_def del: One_nat_def)
  have sc: "Scale_call \<lparr>Scale.scale = [(''x'', 2)]\<rparr> ?h 0 1 None =
     Inr ((2, 1, None),
        \<lparr>dicts = [[(''x'', 0)], [(''y'', 0)], [(''x'', 0)]], arrays = [NdArray [1] [2]]\<rparr>)"
    by (simp add: Scale_call_def dict_copy_def dict_setitem_def nd_inplace_def del: One_nat_def)
  have tw: "Translate_call \<lparr>offset = [(''x'', 1), (''y'', 2)]\<rparr>
     \<lparr>dicts = [[(''x'', 0), (''y'', 0)], []], arrays = [NdArray [1] [1]]\<rparr> 0 1 None =
     Inr ((2, 1, None),
        \<lparr>dicts = [[(''x'', 0), (''y'', 0)], [], [(''x'', 0), (''y'', 0)]],
         arrays = [NdArray [1] [4]]\<rparr>)"
    by (simp add: Translate_call_def dict_copy_def dict_setitem_def nd_inplace_def del: One_nat_def)
  from w tr sc tw show ?thesis by simp
qed

subsection \<open>Without shared arrays\<close>

lemma inplace_all_unshared:
  assumes "distinct (map fst cfg)"
    and "inj_on (map_of its) (fst ` set cfg \<inter> fst ` set its)"
    and "\<forall>v \<in> snd ` set its. v < length arrs"
  shows "(\<forall>kc \<in> set cfg. \<forall>a. map_of its (fst kc) = Some a \<longrightarrow>
            inplace_all f its cfg arrs ! a =
              NdArray (shape (arrs ! a)) (map (\<lambda>x. f x (snd kc)) (elems (arrs ! a)))) \<and>
         (\<forall>a. (\<forall>kc \<in> set cfg. map_of its (fst kc) \<noteq> Some a) \<longrightarrow>
            inplace_all f its cfg arrs ! a = arrs ! a)"
proof (intro conjI ballI allI impI)
  fix kc a
  assume kc: "kc \<in> set cfg" and a: "map_of its (fst kc) = Some a"
  have mem: "(fst kc, snd kc) \<in> set cfg" using kc by simp
  have lt: "a < length arrs" using a assms(3) map_of_SomeD[OF a] by (force simp: image_iff)
  have other: "\<forall>(key', c') \<in> set cfg. key' \<noteq> fst kc \<longrightarrow> map_of its key' \<noteq> Some a"
  proof (clarify)
    fix key' c'
    assume k': "(key', c') \<in> set cfg" "key' \<noteq> fst kc" "map_of its key' = Some a"
    have 1: "key' \<in> fst ` set cfg \<inter> fst ` set its"
      using k'(1,3) map_of_SomeD[OF k'(3)] by (force simp: image_iff)
    have 2: "fst kc \<in> fst ` set cfg \<inter> fst ` set its"
      using kc map_of_SomeD[OF a] by (force simp: image_iff)
    have "map_of its key' = map_of its (fst kc)" using a k'(3) by simp
    then have "key' = fst kc" by (rule inj_onD[OF assms(2) _ 1 2])
    then show False using k'(2) by simp
  qed
  show "inplace_all f its cfg arrs ! a =
      NdArray (shape (arrs ! a)) (map (\<lambda>x. f x (snd kc)) (elems (arrs ! a)))"
    by (rule inplace_all_once[OF assms(1) mem a other lt])
next
  fix a
  assume "\<forall>kc \<in> set cfg. map_of its (fst kc) \<noteq> Some a"
  then have "\<forall>(key, c) \<in> set cfg. map_of its key \<noteq> Some a" by auto
  then show "inplace_all f its cfg arrs ! a = arrs ! a" by (rule inplace_all_untouched)
qed

text \<open>
  Where the inputs hold a different array object under each configured key, Translate
  adds to each of these arrays the offset of its key, once, and leaves every other array
  and every dictionary as it was; the dictionary it returns for the inputs is a new one
  with the items of the old.
\<close>

lemma Translate_call_unshared:
  assumes "wf_heap h" "input_dict < length (dicts h)" "distinct (map fst cfg)"
    and "inj_on (map_of (dicts h ! input_dict)) (fst ` set cfg \<inter> fst ` set (dicts h ! input_dict))"
  shows "\<exists>h'. Translate_call \<lparr>offset = cfg\<rparr> h input_dict label_dict weight_dict =
                 Inr ((length (dicts h), label_dict, weight_dict), h') \<and>
      dicts h' = dicts h @ [dicts h ! input_dict] \<and>
      length (arrays h') = length (arrays h) \<and>
      (\<forall>kc \<in> set cfg. \<forall>a. map_of (dicts h ! input_dict) (fst kc) = Some a \<longrightarrow>
          arrays h' ! a =
            NdArray (shape (arrays h ! a)) (map (\<lambda>x. x + snd kc) (elems (arrays h ! a)))) \<and>
      (\<forall>a. (\<forall>kc \<in> set cfg. map_of (dicts h ! input_dict) (fst kc) \<noteq> Some a) \<longrightarrow>
          arrays h' ! a = arrays h ! a)"
  unfolding Translate_call_eq[OF assms(2)]
  using inplace_all_unshared[OF assms(3,4), of "arrays h" "(+)"] wf_heap_dict[OF assms(1,2)]
  by simp

lemma Scale_call_unshared:
  assumes "wf_heap h" "input_dict < length (dicts h)" "distinct (map fst cfg)"
    and "inj_on (map_of (dicts h ! input_dict)) (fst ` set cfg \<inter> fst ` set (dicts h ! input_dict))"
  shows "\<exists>h'. Scale_call \<lparr>Scale.scale = cfg\<rparr> h input_dict label_dict weight_dict =
                 Inr ((length (dicts h), label_dict, weight_dict), h') \<and>
      dicts h' = dicts h @ [dicts h ! input_dict] \<and>
      length (arrays h') = length (arrays h) \<and>
      (\<forall>kc \<in> set cfg. \<forall>a. map_of (dicts h ! input_dict) (fst kc) = Some a \<longrightarrow>
          arrays h' ! a =
            NdArray (shape (arrays h ! a)) (map (\<lambda>x. x * snd kc) (elems (arrays h ! a)))) \<and>
      (\<forall>a. (\<forall>kc \<in> set cfg. map_of (dicts h ! input_dict) (fst kc) \<noteq> Some a) \<longrightarrow>
          arrays h' ! a = arrays h ! a)"
  unfolding Scale_call_eq[OF assms(2)]
  using inplace_all_unshared[OF assms(3,4), of "arrays h" "(*)"] wf_heap_dict[OF assms(1,2)]
  by simp

section \<open>Repeated elements of apply_keys\<close>

lemma on_apply_keys_set:
  "set ks = set ks' \<Longrightarrow> on_apply_keys loop ks h i l w = on_apply_keys loop ks' h i l w"
  unfolding on_apply_keys_def by (simp cong: prod.case_cong sum.case_cong if_cong)

lemma normalize_value_keys:
  "normalize_value \<lparr>mean = m, std = s, apply_keys = ks\<rparr> =
   normalize_value \<lparr>mean = m, std = s, apply_keys = ks'\<rparr>"
  by (rule ext) (simp add: normalize_value_def cong: sum.case_cong)

lemma log1p_value_keys:
  "log1p_value \<lparr>scale = c, apply_keys = ks\<rparr> = log1p_value \<lparr>scale = c, apply_keys = ks'\<rparr>"
  by (rule ext) (simp add: log1p_value_def)

lemma crop_value_keys:
  "crop_value \<lparr>xmin = a, xmax = b, apply_keys = ks\<rparr> =
   crop_value \<lparr>xmin = a, xmax = b, apply_keys = ks'\<rparr>"
  by (rule ext) (simp add: crop_value_def cong: list.case_cong)

text \<open>
  C10: the constructors of Normalize, Log1p, CropData and SqueezeData accept a tuple that
  repeats "input" or "label": they raise only for the empty tuple and for a tuple with an
  element other than the two, and a call reads the tuple only through membership of
  "input" and of "label", so two tuples with the same elements (one with repetitions,
  the other without) give the same call.
\<close>

theorem repeated_apply_keys:
  "(apply_keys' \<noteq> [] \<and> set apply_keys' \<subseteq> {''input'', ''label''} \<longrightarrow>
      Normalize_init mean' std' apply_keys' =
        Inr \<lparr>mean = mean', std = std', apply_keys = apply_keys'\<rparr> \<and>
      Log1p_init scale' apply_keys' = Inr \<lparr>scale = scale', apply_keys = apply_keys'\<rparr> \<and>
      CropData_init xmin' xmax' apply_keys' =
        Inr \<lparr>xmin = xmin', xmax = xmax', apply_keys = apply_keys'\<rparr> \<and>
      SqueezeData_init apply_keys' = Inr \<lparr>apply_keys = apply_keys'\<rparr>) \<and>
   ((\<exists>e. Normalize_init mean' std' apply_keys' = Inl e) \<or>
    (\<exists>e. Log1p_init scale' apply_keys' = Inl e) \<or>
    (\<exists>e. CropData_init xmin' xmax' apply_keys' = Inl e) \<or>
    (\<exists>e. SqueezeData_init apply_keys' = Inl e) \<longrightarrow>
      apply_keys' = [] \<or> \<not> set apply_keys' \<subseteq> {''input'', ''label''}) \<and>
   (set other_keys = set apply_keys' \<longrightarrow>
      Normalize_call \<lparr>mean = mean', std = std', apply_keys = other_keys\<rparr> h i l w =
        Normalize_call \<lparr>mean = mean', std = std', apply_keys = apply_keys'\<rparr> h i l w \<and>
      Log1p_call \<lparr>scale = scale', apply_keys = other_keys\<rparr> h i l w =
        Log1p_call \<lparr>scale = scale', apply_keys = apply_keys'\<rparr> h i l w \<and>
      CropData_call \<lparr>xmin = xmin', xmax = xmax', apply_keys = other_keys\<rparr> h i l w =
        CropData_call \<lparr>xmin = xmin', xmax = xmax', apply_keys = apply_keys'\<rparr> h i l w \<and>
      SqueezeData_call \<lparr>apply_keys = other_keys\<rparr> h i l w =
        SqueezeData_call \<lparr>apply_keys = apply_keys'\<rparr> h i l w)"
proof (intro conjI impI)
  assume eq: "set other_keys = set apply_keys'"
  show "Normalize_call \<lparr>mean = mean', std = std', apply_keys = other_keys\<rparr> h i l w =
        Normalize_call \<lparr>mean = mean', std = std', apply_keys = apply_keys'\<rparr> h i l w"
    using on_apply_keys_set[OF eq] normalize_value_keys[of mean' std' other_keys apply_keys']
    by (simp add: Normalize_call_def)
  show "Log1p_call \<lparr>scale = scale', apply_keys = other_keys\<rparr> h i l w =
        Log1p_call \<lparr>scale = scale', apply_keys = apply_keys'\<rparr> h i l w"
    using on_apply_keys_set[OF eq] log1p_value_keys[of scale' other_keys apply_keys']
    by (simp add: Log1p_call_def)
  show "CropData_call \<lparr>xmin = xmin', xmax = xmax', apply_keys = other_keys\<rparr> h i l w =
        CropData_call \<lparr>xmin = xmin', xmax = xmax', apply_keys = apply_keys'\<rparr> h i l w"
    using on_apply_keys_set[OF eq] crop_value_keys[of xmin' xmax' other_keys apply_keys']
    by (simp add: CropData_call_def)
  show "SqueezeData_call \<lparr>apply_keys = other_keys\<rparr> h i l w =
        SqueezeData_call \<lparr>apply_keys = apply_keys'\<rparr> h i l w"
    using on_apply_keys_set[OF eq] by (simp add: SqueezeData_call_def)
next
  assume "(\<exists>e. Normalize_init mean' std' apply_keys' = Inl e) \<or>
    (\<exists>e. Log1p_init scale' apply_keys' = Inl e) \<or>
    (\<exists>e. CropData_init xmin' xmax' apply_keys' = Inl e) \<or>
    (\<exists>e. SqueezeData_init apply_keys' = Inl e)"
  then show "apply_keys' = [] \<or> \<not> set apply_keys' \<subseteq> {''input'', ''label''}"
    unfolding Normalize_init_def Log1p_init_def CropData_init_def SqueezeData_init_def
      card_with_input_label
    by (auto split: if_splits)
qed (simp_all only: Normalize_init_def Log1p_init_def CropData_init_def SqueezeData_init_def
      card_with_input_label, simp_all)

theorem repeated_apply_keys_witness:
  "Normalize_init (NdArray [] [0]) (NdArray [] [2]) [''input'', ''input''] =
     Inr \<lparr>mean = NdArray [] [0], std = NdArray [] [2], apply_keys = [''input'', ''input'']\<rparr> \<and>
   Log1p_init 1 [''label'', ''input'', ''label''] =
     Inr \<lparr>scale = 1, apply_keys = [''label'', ''input'', ''label'']\<rparr> \<and>
   CropData_init [0, 0] [2, 3] [''label'', ''label''] =
     Inr \<lparr>xmin = [0, 0], xmax = [2, 3], apply_keys = [''label'', ''label'']\<rparr> \<and>
   SqueezeData_init [''input'', ''input''] = Inr \<lparr>apply_keys = [''input'', ''input'']\<rparr> \<and>
   Normalize_call \<lparr>mean = NdArray [] [0], std = NdArray [] [2], apply_keys = [''input'']\<rparr>
       \<lparr>dicts = [[(''x'', 0)], [(''y'', 1)]], arrays = [NdArray [] [4], NdArray [] [7]]\<rparr> 0 1 None =
     Normalize_call \<lparr>mean = NdArray [] [0], std = NdArray [] [2], apply_keys = [''input'', ''input'']\<rparr>
       \<lparr>dicts = [[(''x'', 0)], [(''y'', 1)]], arrays = [NdArray [] [4], NdArray [] [7]]\<rparr> 0 1 None \<and>
   SqueezeData_call \<lparr>apply_keys = [''input'']\<rparr>
       \<lparr>dicts = [[(''x'', 0)], [(''y'', 1)]], arrays = [NdArray [] [4], NdArray [] [7]]\<rparr> 0 1 None =
     SqueezeData_call \<lparr>apply_keys = [''input'', ''input'']\<rparr>
       \<lparr>dicts = [[(''x'', 0)], [(''y'', 1)]], arrays = [NdArray [] [4], NdArray [] [7]]\<rparr> 0 1 None"
  using
    repeated_apply_keys[of "[''input'', ''input'']" "NdArray [] [0]" "NdArray [] [2]" 1 "[0, 0]" "[2, 3]"
      "[''input'']" "\<lparr>dicts = [[(''x'', 0)], [(''y'', 1)]], arrays = [NdArray [] [4], NdArray [] [7]]\<rparr>"
      0 1 None]
    repeated_apply_keys[of "[''label'', ''input'', ''label'']" "NdArray [] [0]" "NdArray [] [2]" 1
      "[0, 0]" "[2, 3]" "[''label'', ''input'']" "\<lparr>dicts = [], arrays = []\<rparr>" 0 1 None]
    repeated_apply_keys[of "[''label'', ''label'']" "NdArray [] [0]" "NdArray [] [2]" 1
      "[0, 0]" "[2, 3]" "[''label'']" "\<lparr>dicts = [], arrays = []\<rparr>" 0 1 None]
  by simp

end
